theory Spec2Isabelle
  imports Complex_Main
begin

section \<open>Values, errors and NumPy array primitives\<close>

text \<open>
  The embedding follows \<^verbatim>\<open>src/stumpy/mstump.py\<close>. Python integers are \<open>int\<close>.
  In the engine \<open>u_mstump\<close> the NumPy \<^verbatim>\<open>float64\<close> entries are idealised: dot
  products are exact reals, and a distance is a real or +infinity (type \<open>dist\<close>);
  rounding, NaN and -infinity are not modelled there. The rounding of the dot-product
  update is modelled in the subsection on binary64. Every Python exception is a value
  \<open>Inl e\<close> of the result type.
\<close>

datatype error = IndexError | ValueError | NameError | InvalidInputError

fun rbind :: "error + 'a \<Rightarrow> ('a \<Rightarrow> error + 'b) \<Rightarrow> error + 'b" where
  "rbind (Inl e) f = Inl e"
| "rbind (Inr x) f = f x"

datatype dist = Fin real | PInf

fun dist_le :: "dist \<Rightarrow> dist \<Rightarrow> bool" where
  "dist_le _ PInf = True"
| "dist_le PInf (Fin _) = False"
| "dist_le (Fin x) (Fin y) = (x \<le> y)"

instantiation dist :: linorder
begin

definition less_eq_dist :: "dist \<Rightarrow> dist \<Rightarrow> bool" where
  "less_eq_dist a b = dist_le a b"

definition less_dist :: "dist \<Rightarrow> dist \<Rightarrow> bool" where
  "less_dist a b = (dist_le a b \<and> \<not> dist_le b a)"

instance
proof
  fix x y z :: dist
  show "(x < y) = (x \<le> y \<and> \<not> y \<le> x)"
    by (simp add: less_dist_def less_eq_dist_def)
  show "x \<le> x"
    by (cases x) (simp_all add: less_eq_dist_def)
  show "x \<le> y \<Longrightarrow> y \<le> z \<Longrightarrow> x \<le> z"
    by (cases x; cases y; cases z) (simp_all add: less_eq_dist_def)
  show "x \<le> y \<Longrightarrow> y \<le> x \<Longrightarrow> x = y"
    by (cases x; cases y) (simp_all add: less_eq_dist_def)
  show "x \<le> y \<or> y \<le> x"
    by (cases x; cases y) (auto simp add: less_eq_dist_def)
qed

end

text \<open>\<^verbatim>\<open>np.sqrt\<close> on a distance; the square root of +infinity is +infinity.\<close>

fun dsqrt :: "dist \<Rightarrow> dist" where
  "dsqrt (Fin x) = Fin (sqrt x)"
| "dsqrt PInf = PInf"

text \<open>
  Indexing \<^verbatim>\<open>xs[i]\<close>: a negative index counts from the end, an index out of range
  raises \<^verbatim>\<open>IndexError\<close> (Python semantics; Numba compiles the bounds check away).
\<close>

definition py_index :: "nat \<Rightarrow> int \<Rightarrow> error + nat" where
  "py_index n i =
     (let j = (if i < 0 then i + int n else i)
      in if 0 \<le> j \<and> j < int n then Inr (nat j) else Inl IndexError)"

definition nth_py :: "'a list \<Rightarrow> int \<Rightarrow> error + 'a" where
  "nth_py xs i = rbind (py_index (length xs) i) (\<lambda>j. Inr (xs ! j))"

definition set_py :: "'a list \<Rightarrow> int \<Rightarrow> 'a \<Rightarrow> error + 'a list" where
  "set_py xs i v = rbind (py_index (length xs) i) (\<lambda>j. Inr (xs[j := v]))"

text \<open>
  A slice bound of \<^verbatim>\<open>xs[a:b]\<close>: a negative bound counts from the end, and the
  result is clipped to \<open>0..n\<close>.
\<close>

definition slice_bound :: "nat \<Rightarrow> int \<Rightarrow> nat" where
  "slice_bound n x = (if x < 0 then nat (max 0 (x + int n)) else nat (min x (int n)))"

text \<open>\<^verbatim>\<open>D[a:b] = np.inf\<close>, \<^verbatim>\<open>D[:b]\<close> and \<^verbatim>\<open>D[a:]\<close>.\<close>

definition mask_slice :: "dist list \<Rightarrow> int \<Rightarrow> int \<Rightarrow> dist list" where
  "mask_slice D a b =
     (let lo = slice_bound (length D) a; hi = slice_bound (length D) b
      in map (\<lambda>t. if lo \<le> t \<and> t < hi then PInf else D ! t) [0..<length D])"

definition slice_to :: "'a list \<Rightarrow> int \<Rightarrow> 'a list" where
  "slice_to xs b = take (slice_bound (length xs) b) xs"

definition slice_from :: "'a list \<Rightarrow> int \<Rightarrow> 'a list" where
  "slice_from xs a = drop (slice_bound (length xs) a) xs"

text \<open>
  \<^verbatim>\<open>np.argmin\<close>: a left-to-right scan that keeps the first strict minimum, so ties
  resolve to the lowest index; an empty array raises \<^verbatim>\<open>ValueError\<close>.
\<close>

fun argmin_scan :: "dist list \<Rightarrow> nat \<Rightarrow> nat \<Rightarrow> dist \<Rightarrow> nat" where
  "argmin_scan [] pos best bv = best"
| "argmin_scan (x # xs) pos best bv =
     (if x < bv then argmin_scan xs (Suc pos) pos x
      else argmin_scan xs (Suc pos) best bv)"

definition np_argmin :: "dist list \<Rightarrow> error + int" where
  "np_argmin D = (case D of [] \<Rightarrow> Inl ValueError
                  | x # xs \<Rightarrow> Inr (int (argmin_scan xs 1 0 x)))"

section \<open>The recurrence engine \<^verbatim>\<open>_mstump\<close>\<close>

text \<open>
  The read-only arguments of \<^verbatim>\<open>_mstump\<close>. The Greek names of the source are spelled
  out: \<open>Sigma_T\<close>, \<open>mu_Q\<close>, \<open>sigma_Q\<close>.
\<close>

record engine_args =
  T_A :: "real list"
  T_B :: "real list"
  m :: int
  excl_zone :: int
  M_T :: "real list"
  Sigma_T :: "real list"
  QT_first :: "real list"
  mu_Q :: "real list"
  sigma_Q :: "real list"
  k :: int
  ignore_trivial :: bool

text \<open>
  The distance kernel \<^verbatim>\<open>_calculate_squared_distance_profile(m, QT, mu, sigma, M_T, Sigma_T)\<close>
  is imported by the module and not part of the file; the engine takes it as a parameter.
\<close>

type_synonym kernel =
  "int \<Rightarrow> real list \<Rightarrow> real \<Rightarrow> real \<Rightarrow> real list \<Rightarrow> real list \<Rightarrow> error + dist list"

text \<open>
  Lines 121 and 124: one column update,
  \<^verbatim>\<open>live[j] = prev[j-1] - T_B[i-1]*T_A[j-1] + T_B[i+m-1]*T_A[j+m-1]\<close>, as the real
  number it denotes; \<open>col_value_f64\<close> below is the value binary64 arithmetic delivers.
\<close>

definition col_value :: "engine_args \<Rightarrow> int \<Rightarrow> real list \<Rightarrow> int \<Rightarrow> error + real" where
  "col_value a i prev j =
     rbind (nth_py prev (j - 1)) (\<lambda>p.
     rbind (nth_py (T_B a) (i - 1)) (\<lambda>b0.
     rbind (nth_py (T_A a) (j - 1)) (\<lambda>a0.
     rbind (nth_py (T_B a) (i + m a - 1)) (\<lambda>b1.
     rbind (nth_py (T_A a) (j + m a - 1)) (\<lambda>a1.
     Inr (p - b0 * a0 + b1 * a1))))))"

definition col_update :: "engine_args \<Rightarrow> int \<Rightarrow> real list \<Rightarrow> real list \<Rightarrow> int \<Rightarrow> error + real list" where
  "col_update a i prev live j = rbind (col_value a i prev j) (\<lambda>v. set_py live j v)"

text \<open>
  The engine's state is the pair \<open>(QT_odd, QT_even)\<close>. Lines 119 to 124: an even row
  writes \<open>QT_even\<close> reading \<open>QT_odd\<close>, an odd row writes \<open>QT_odd\<close> reading \<open>QT_even\<close>.
\<close>

type_synonym buffers = "real list \<times> real list"

fun col_step :: "engine_args \<Rightarrow> int \<Rightarrow> buffers \<Rightarrow> int \<Rightarrow> error + buffers" where
  "col_step a i (QT_odd, QT_even) j =
     (if i mod 2 = 0
      then rbind (col_update a i QT_odd QT_even j) (\<lambda>e. Inr (QT_odd, e))
      else rbind (col_update a i QT_even QT_odd j) (\<lambda>od. Inr (od, QT_even)))"

text \<open>The column updates of one row, performed one after the other in the order \<open>js\<close>.\<close>

fun col_steps :: "engine_args \<Rightarrow> int \<Rightarrow> int list \<Rightarrow> buffers \<Rightarrow> error + buffers" where
  "col_steps a i [] st = Inr st"
| "col_steps a i (j # js) st = rbind (col_step a i st j) (col_steps a i js)"

text \<open>
  Lines 114 and 115: \<^verbatim>\<open>for rev_j in prange(1, k): j = k - rev_j\<close>, the columns
  \<open>k-1\<close> down to \<open>1\<close>.
\<close>

definition col_order :: "int \<Rightarrow> int list" where
  "col_order kk = map (\<lambda>rev_j. kk - rev_j) [1..kk - 1]"

text \<open>
  Lines 126 to 131 seed position 0 of the live buffer from \<open>QT_first[i]\<close>;
  \<open>row_buffers\<close> is lines 114 to 131 without the kernel call: the buffers after row \<open>i\<close>.
\<close>

fun seed_first :: "engine_args \<Rightarrow> int \<Rightarrow> buffers \<Rightarrow> error + buffers" where
  "seed_first a i (QT_odd, QT_even) =
     rbind (nth_py (QT_first a) i) (\<lambda>q.
       if i mod 2 = 0
       then rbind (set_py QT_even 0 q) (\<lambda>e. Inr (QT_odd, e))
       else rbind (set_py QT_odd 0 q) (\<lambda>od. Inr (od, QT_even)))"

definition row_buffers :: "engine_args \<Rightarrow> int \<Rightarrow> buffers \<Rightarrow> error + buffers" where
  "row_buffers a i st = rbind (col_steps a i (col_order (k a)) st) (seed_first a i)"

fun live_buffer :: "int \<Rightarrow> buffers \<Rightarrow> real list" where
  "live_buffer i (QT_odd, QT_even) = (if i mod 2 = 0 then QT_even else QT_odd)"

text \<open>Lines 128 and 131: the kernel call on the live buffer.\<close>

definition row_profile :: "kernel \<Rightarrow> engine_args \<Rightarrow> int \<Rightarrow> buffers \<Rightarrow> error + dist list" where
  "row_profile kern a i st =
     rbind (nth_py (mu_Q a) i) (\<lambda>mu.
     rbind (nth_py (sigma_Q a) i) (\<lambda>sg.
     kern (m a) (live_buffer i st) mu sg (M_T a) (Sigma_T a)))"

text \<open>Lines 133 to 136: the exclusion zone is masked for a self-join.\<close>

definition masked :: "bool \<Rightarrow> int \<Rightarrow> int \<Rightarrow> dist list \<Rightarrow> dist list" where
  "masked ign zone i D =
     (if ign then mask_slice D (max 0 (i - zone)) (i + zone + 1) else D)"

text \<open>Lines 140 to 146 and 148 to 153: the left and the right neighbour.\<close>

definition left_index :: "bool \<Rightarrow> int \<Rightarrow> int \<Rightarrow> dist list \<Rightarrow> error + int" where
  "left_index ign zone i D =
     (if ign \<and> i > 0
      then rbind (np_argmin (slice_to D i)) (\<lambda>IL.
             Inr (if max 0 (i - zone) \<le> IL \<and> IL < i + zone + 1 then - 1 else IL))
      else Inr (- 1))"

definition right_index :: "bool \<Rightarrow> int \<Rightarrow> int \<Rightarrow> dist list \<Rightarrow> error + int" where
  "right_index ign zone i D =
     (if ign \<and> i + 1 < int (length D)
      then rbind (np_argmin (slice_from D (i + 1))) (\<lambda>r.
             let IR = i + 1 + r
             in Inr (if max 0 (i - zone) \<le> IR \<and> IR < i + zone + 1 then - 1 else IR))
      else Inr (- 1))"

text \<open>
  Lines 133 to 157: the row \<open>(P, I, IL, IR)\<close> extracted from the kernel's output \<open>D0\<close>.
\<close>

type_synonym row = "dist \<times> int \<times> int \<times> int"

definition extract_row :: "bool \<Rightarrow> int \<Rightarrow> int \<Rightarrow> dist list \<Rightarrow> error + row" where
  "extract_row ign zone i D0 =
     (let D = masked ign zone i D0
      in rbind (np_argmin D) (\<lambda>I.
         rbind (nth_py D I) (\<lambda>d.
         rbind (left_index ign zone i D) (\<lambda>IL.
         rbind (right_index ign zone i D) (\<lambda>IR.
         Inr (dsqrt d, I, IL, IR))))))"

text \<open>One iteration of the loop of line 111.\<close>

definition row_step :: "kernel \<Rightarrow> engine_args \<Rightarrow> int \<Rightarrow> buffers \<Rightarrow> error + (buffers \<times> row)" where
  "row_step kern a i st =
     rbind (row_buffers a i st) (\<lambda>st'.
     rbind (row_profile kern a i st') (\<lambda>D0.
     rbind (extract_row (ignore_trivial a) (excl_zone a) i D0) (\<lambda>r.
     Inr (st', r))))"

fun rows_loop :: "kernel \<Rightarrow> engine_args \<Rightarrow> int list \<Rightarrow> buffers \<Rightarrow> error + (buffers \<times> row list)" where
  "rows_loop kern a [] st = Inr (st, [])"
| "rows_loop kern a (i # is) st =
     rbind (row_step kern a i st) (\<lambda>(st', r).
     rbind (rows_loop kern a is st') (\<lambda>(st'', rs).
     Inr (st'', r # rs)))"

text \<open>
  \<^verbatim>\<open>_mstump\<close> (an Isabelle name cannot start with an underscore: \<open>u_mstump\<close>).
  The eleven read-only arguments are passed as the record; \<open>QT\<close>, \<open>range_stop\<close> and
  \<open>range_start\<close> follow. Lines 106 to 109 copy \<open>QT\<close> twice and allocate the outputs,
  \<^verbatim>\<open>np.empty\<close> raising \<^verbatim>\<open>ValueError\<close> on a negative size; the result is
  \<open>(profile, indices)\<close>, one entry per row \<open>range_start \<le> i < range_stop\<close>.
\<close>

definition u_mstump_run ::
  "kernel \<Rightarrow> engine_args \<Rightarrow> real list \<Rightarrow> int \<Rightarrow> int \<Rightarrow> error + (buffers \<times> row list)" where
  "u_mstump_run kern a QT range_stop range_start =
     (if range_stop - range_start < 0 then Inl ValueError
      else rows_loop kern a [range_start..range_stop - 1] (QT, QT))"

definition u_mstump ::
  "kernel \<Rightarrow> engine_args \<Rightarrow> real list \<Rightarrow> int \<Rightarrow> int \<Rightarrow>
   error + (dist list \<times> (int \<times> int \<times> int) list)" where
  "u_mstump kern a QT range_stop range_start =
     rbind (u_mstump_run kern a QT range_stop range_start)
       (\<lambda>(st, rs). Inr (map fst rs, map snd rs))"

subsection \<open>Observations of the engine's loop\<close>

text \<open>
  The buffers once the rows \<open>range_start..i\<close> have been updated, and the distance
  profile the kernel returns for row \<open>i\<close> (before masking).
\<close>

fun run_buffers :: "engine_args \<Rightarrow> int list \<Rightarrow> buffers \<Rightarrow> error + buffers" where
  "run_buffers a [] st = Inr st"
| "run_buffers a (i # is) st = rbind (row_buffers a i st) (run_buffers a is)"

definition buffers_after :: "engine_args \<Rightarrow> real list \<Rightarrow> int \<Rightarrow> int \<Rightarrow> error + buffers" where
  "buffers_after a QT range_start i = run_buffers a [range_start..i] (QT, QT)"

definition profile_at :: "kernel \<Rightarrow> engine_args \<Rightarrow> real list \<Rightarrow> int \<Rightarrow> int \<Rightarrow> error + dist list" where
  "profile_at kern a QT range_start i =
     rbind (buffers_after a QT range_start i) (row_profile kern a i)"

fun prev_buffer :: "int \<Rightarrow> buffers \<Rightarrow> real list" where
  "prev_buffer i (QT_odd, QT_even) = (if i mod 2 = 0 then QT_odd else QT_even)"

fun set_live :: "int \<Rightarrow> buffers \<Rightarrow> real list \<Rightarrow> buffers" where
  "set_live i (QT_odd, QT_even) l = (if i mod 2 = 0 then (QT_odd, l) else (l, QT_even))"

subsection \<open>The column loop run in parallel\<close>

text \<open>
  Line 114 is a \<^verbatim>\<open>prange\<close>: Numba may run the iterations in any order and on several
  threads. A column update is two memory steps: \<open>Load j\<close> evaluates the right-hand side
  of line 121 or 124 into a temporary of iteration \<open>j\<close>, \<open>Store j\<close> writes the temporary
  to \<open>live[j]\<close>. A parallel run is a schedule, a list of such steps executed one after
  the other on the shared buffers. A \<open>Store\<close> whose temporary is unbound is a
  \<^verbatim>\<open>NameError\<close>.
\<close>

datatype event = Load int | Store int

type_synonym temps = "int \<Rightarrow> real option"

fun exec_event :: "engine_args \<Rightarrow> int \<Rightarrow> buffers \<times> temps \<Rightarrow> event \<Rightarrow> error + (buffers \<times> temps)" where
  "exec_event a i (st, tmp) (Load j) =
     rbind (col_value a i (prev_buffer i st) j) (\<lambda>v. Inr (st, tmp(j \<mapsto> v)))"
| "exec_event a i (st, tmp) (Store j) =
     (case tmp j of
        None \<Rightarrow> Inl NameError
      | Some v \<Rightarrow> rbind (set_py (live_buffer i st) j v) (\<lambda>l. Inr (set_live i st l, tmp)))"

fun run_schedule :: "engine_args \<Rightarrow> int \<Rightarrow> event list \<Rightarrow> buffers \<times> temps \<Rightarrow> error + (buffers \<times> temps)" where
  "run_schedule a i [] c = Inr c"
| "run_schedule a i (e # es) c = rbind (exec_event a i c e) (run_schedule a i es)"

definition run_parallel :: "engine_args \<Rightarrow> int \<Rightarrow> event list \<Rightarrow> buffers \<Rightarrow> error + buffers" where
  "run_parallel a i sch st = rbind (run_schedule a i sch (st, \<lambda>j. None)) (\<lambda>(st', tmp). Inr st')"

text \<open>
  A schedule is valid for \<open>k\<close> when every column \<open>1..k-1\<close> is loaded exactly once and
  every \<open>Store j\<close> comes after its \<open>Load j\<close>, each load being stored once
  (\<open>run_ok\<close> tracks the columns loaded and not yet stored). \<open>sequential js\<close> is the
  schedule of a single thread that updates the columns in the order \<open>js\<close>.
\<close>

fun loads :: "event list \<Rightarrow> int list" where
  "loads [] = []"
| "loads (Load j # es) = j # loads es"
| "loads (Store j # es) = loads es"

fun stores :: "event list \<Rightarrow> int list" where
  "stores [] = []"
| "stores (Load j # es) = stores es"
| "stores (Store j # es) = j # stores es"

fun run_ok :: "int list \<Rightarrow> event list \<Rightarrow> bool" where
  "run_ok pend [] = (pend = [])"
| "run_ok pend (Load j # es) = run_ok (j # pend) es"
| "run_ok pend (Store j # es) = (j \<in> set pend \<and> run_ok (remove1 j pend) es)"

definition valid_schedule :: "int \<Rightarrow> event list \<Rightarrow> bool" where
  "valid_schedule kk sch = (distinct (loads sch) \<and> set (loads sch) = {1..kk - 1} \<and> run_ok [] sch)"

definition sequential :: "int list \<Rightarrow> event list" where
  "sequential js = concat (map (\<lambda>j. [Load j, Store j]) js)"

subsection \<open>The engine on a store\<close>

text \<open>
  For the frame property the arrays live in a store: a heap is the list of all arrays,
  an address is an index into it, and a computation takes the heap and returns the
  heap it leaves together with its result or the exception raised. \<^verbatim>\<open>copy()\<close>
  allocates a new array at the end of the heap. Addresses passed to the engine are
  those of existing arrays (\<open>ptrs_valid\<close>); two arguments may share an address, as
  \<open>T_A\<close> and \<open>T_B\<close> do in a self-join. The kernel returns a new array \<open>D\<close>, which
  is then a local value of the row.
\<close>

type_synonym heap = "real list list"

type_synonym 'a comp = "heap \<Rightarrow> heap \<times> (error + 'a)"

definition sreturn :: "'a \<Rightarrow> 'a comp" where
  "sreturn x h = (h, Inr x)"

definition slift :: "error + 'a \<Rightarrow> 'a comp" where
  "slift r h = (h, r)"

definition sbind :: "'a comp \<Rightarrow> ('a \<Rightarrow> 'b comp) \<Rightarrow> 'b comp" where
  "sbind c f h = (case c h of (h', Inl e) \<Rightarrow> (h', Inl e) | (h', Inr x) \<Rightarrow> f x h')"

definition rd :: "nat \<Rightarrow> int \<Rightarrow> real comp" where
  "rd p i h = (h, nth_py (h ! p) i)"

definition wr :: "nat \<Rightarrow> int \<Rightarrow> real \<Rightarrow> unit comp" where
  "wr p i v h = (case set_py (h ! p) i v of Inl e \<Rightarrow> (h, Inl e) | Inr l \<Rightarrow> (h[p := l], Inr ()))"

definition array_copy :: "nat \<Rightarrow> nat comp" where
  "array_copy p h = (h @ [h ! p], Inr (length h))"

text \<open>The arguments of \<^verbatim>\<open>_mstump\<close> as addresses (\<open>p_\<close>) and scalars (\<open>s_\<close>).\<close>

record engine_ptrs =
  p_T_A :: nat
  p_T_B :: nat
  s_m :: int
  s_excl_zone :: int
  p_M_T :: nat
  p_Sigma_T :: nat
  p_QT_first :: nat
  p_mu_Q :: nat
  p_sigma_Q :: nat
  s_k :: int
  s_ignore_trivial :: bool

text \<open>Lines 106 to 159 once more, statement by statement, on the store.\<close>

definition col_update_st :: "engine_ptrs \<Rightarrow> int \<Rightarrow> nat \<Rightarrow> nat \<Rightarrow> int \<Rightarrow> unit comp" where
  "col_update_st p i prev live j =
     sbind (rd prev (j - 1)) (\<lambda>q.
     sbind (rd (p_T_B p) (i - 1)) (\<lambda>b0.
     sbind (rd (p_T_A p) (j - 1)) (\<lambda>a0.
     sbind (rd (p_T_B p) (i + s_m p - 1)) (\<lambda>b1.
     sbind (rd (p_T_A p) (j + s_m p - 1)) (\<lambda>a1.
     wr live j (q - b0 * a0 + b1 * a1))))))"

definition col_step_st :: "engine_ptrs \<Rightarrow> int \<Rightarrow> nat \<Rightarrow> nat \<Rightarrow> int \<Rightarrow> unit comp" where
  "col_step_st p i QT_odd QT_even j =
     (if i mod 2 = 0 then col_update_st p i QT_odd QT_even j
      else col_update_st p i QT_even QT_odd j)"

fun col_steps_st :: "engine_ptrs \<Rightarrow> int \<Rightarrow> nat \<Rightarrow> nat \<Rightarrow> int list \<Rightarrow> unit comp" where
  "col_steps_st p i QT_odd QT_even [] = sreturn ()"
| "col_steps_st p i QT_odd QT_even (j # js) =
     sbind (col_step_st p i QT_odd QT_even j) (\<lambda>_. col_steps_st p i QT_odd QT_even js)"

definition seed_first_st :: "engine_ptrs \<Rightarrow> int \<Rightarrow> nat \<Rightarrow> nat \<Rightarrow> unit comp" where
  "seed_first_st p i QT_odd QT_even =
     sbind (rd (p_QT_first p) i) (\<lambda>q. if i mod 2 = 0 then wr QT_even 0 q else wr QT_odd 0 q)"

definition row_profile_st :: "kernel \<Rightarrow> engine_ptrs \<Rightarrow> int \<Rightarrow> nat \<Rightarrow> nat \<Rightarrow> dist list comp" where
  "row_profile_st kern p i QT_odd QT_even =
     sbind (rd (p_mu_Q p) i) (\<lambda>mu.
     sbind (rd (p_sigma_Q p) i) (\<lambda>sg h.
       (h, kern (s_m p) (h ! (if i mod 2 = 0 then QT_even else QT_odd)) mu sg
             (h ! p_M_T p) (h ! p_Sigma_T p))))"

definition row_step_st :: "kernel \<Rightarrow> engine_ptrs \<Rightarrow> int \<Rightarrow> nat \<Rightarrow> nat \<Rightarrow> row comp" where
  "row_step_st kern p i QT_odd QT_even =
     sbind (col_steps_st p i QT_odd QT_even (col_order (s_k p))) (\<lambda>_.
     sbind (seed_first_st p i QT_odd QT_even) (\<lambda>_.
     sbind (row_profile_st kern p i QT_odd QT_even) (\<lambda>D0.
     slift (extract_row (s_ignore_trivial p) (s_excl_zone p) i D0))))"

fun rows_loop_st :: "kernel \<Rightarrow> engine_ptrs \<Rightarrow> nat \<Rightarrow> nat \<Rightarrow> int list \<Rightarrow> row list comp" where
  "rows_loop_st kern p QT_odd QT_even [] = sreturn []"
| "rows_loop_st kern p QT_odd QT_even (i # is) =
     sbind (row_step_st kern p i QT_odd QT_even) (\<lambda>r.
     sbind (rows_loop_st kern p QT_odd QT_even is) (\<lambda>rs.
     sreturn (r # rs)))"

definition u_mstump_st ::
  "kernel \<Rightarrow> engine_ptrs \<Rightarrow> nat \<Rightarrow> int \<Rightarrow> int \<Rightarrow> (dist list \<times> (int \<times> int \<times> int) list) comp" where
  "u_mstump_st kern p QT range_stop range_start =
     sbind (array_copy QT) (\<lambda>QT_odd.
     sbind (array_copy QT) (\<lambda>QT_even.
     sbind (slift (if range_stop - range_start < 0 then Inl ValueError else Inr ())) (\<lambda>_.
     sbind (rows_loop_st kern p QT_odd QT_even [range_start..range_stop - 1]) (\<lambda>rs.
     sreturn (map fst rs, map snd rs)))))"

text \<open>
  The argument values a heap holds, and the simulation relation between a run on the
  heap \<open>h @ [QT_odd, QT_even]\<close> and a run of the state-passing model.
\<close>

definition load_args :: "heap \<Rightarrow> engine_ptrs \<Rightarrow> engine_args" where
  "load_args h p =
     \<lparr>T_A = h ! p_T_A p, T_B = h ! p_T_B p, m = s_m p, excl_zone = s_excl_zone p,
      M_T = h ! p_M_T p, Sigma_T = h ! p_Sigma_T p, QT_first = h ! p_QT_first p,
      mu_Q = h ! p_mu_Q p, sigma_Q = h ! p_sigma_Q p, k = s_k p,
      ignore_trivial = s_ignore_trivial p\<rparr>"

definition ptrs_valid :: "engine_ptrs \<Rightarrow> nat \<Rightarrow> heap \<Rightarrow> bool" where
  "ptrs_valid p QT h =
     (p_T_A p < length h \<and> p_T_B p < length h \<and> p_M_T p < length h \<and>
      p_Sigma_T p < length h \<and> p_QT_first p < length h \<and> p_mu_Q p < length h \<and>
      p_sigma_Q p < length h \<and> QT < length h)"

definition sim :: "heap \<Rightarrow> heap \<times> (error + 'a) \<Rightarrow> error + (buffers \<times> 'a) \<Rightarrow> bool" where
  "sim h r pure =
     (\<exists>od ev. fst r = h @ [od, ev] \<and>
        (case pure of Inl err \<Rightarrow> snd r = Inl err
         | Inr (st, x) \<Rightarrow> st = (od, ev) \<and> snd r = Inr x))"

subsection \<open>The brute-force dot product\<close>

text \<open>
  The directly computed dot product of \<open>T_B[i..i+m-1]\<close> with \<open>T_A[j..j+m-1]\<close>, and
  the vector of these for all \<open>k\<close> reference windows.
\<close>

definition window_dot :: "real list \<Rightarrow> real list \<Rightarrow> nat \<Rightarrow> nat \<Rightarrow> nat \<Rightarrow> real" where
  "window_dot TB TA mm i j = (\<Sum>t\<leftarrow>[0..<mm]. TB ! (i + t) * TA ! (j + t))"

definition direct_QT :: "engine_args \<Rightarrow> int \<Rightarrow> real list" where
  "direct_QT a i = map (window_dot (T_B a) (T_A a) (nat (m a)) (nat i)) [0..<nat (k a)]"


subsection \<open>The distance kernel\<close>

text \<open>
  Modelled from the spec: \<^verbatim>\<open>_calculate_squared_distance_profile\<close> is imported from
  the package and its body is not in \<^verbatim>\<open>mstump.py\<close>. The spec's contract (4.1) is
  \<^verbatim>\<open>D[j] = max(0, 2*m*(1 - (QT[j] - m*mu*M[j]) / (m*sigma*Sigma[j])))\<close> for every
  reference index \<open>j\<close>, with no error conditions. The spec leaves the value for a
  zero denominator open; it is +infinity here. The theorems about the engine hold for
  every kernel; this one is used to run the engine on concrete inputs.
\<close>

definition calculate_squared_distance_profile :: kernel where
  "calculate_squared_distance_profile mm QT mu sg M S =
     Inr (map (\<lambda>j. if real_of_int mm * sg * S ! j = 0 then PInf
                   else Fin (max 0 (2 * real_of_int mm *
                          (1 - (QT ! j - real_of_int mm * mu * M ! j) / (real_of_int mm * sg * S ! j)))))
            [0..<length QT])"

subsection \<open>The column update in binary64\<close>

text \<open>
  The arrays are NumPy \<^verbatim>\<open>float64\<close> arrays, so lines 121 and 124 do not compute the real
  number \<open>prev[j-1] - T_B[i-1]*T_A[j-1] + T_B[i+m-1]*T_A[j+m-1]\<close> of \<open>col_value\<close>: each
  operation delivers the binary64 number nearest to its exact result. What follows is the
  same column loop with the operations rounded; the entries of the arrays are finite
  binary64 numbers, read as the reals they denote.

  \<open>fl x\<close> is \<open>x\<close> rounded to nearest, ties to even, to 53 significant bits with exponent at
  least \<open>-1074\<close> (binary64 with its subnormal numbers): \<open>2 ^ ulp_exponent x\<close> is the spacing
  of the binary64 numbers around \<open>x\<close>.
\<close>

definition round_half_even :: "real \<Rightarrow> int" where
  "round_half_even x =
     (let f = \<lfloor>x\<rfloor>; d = x - of_int f
      in if d < 1 / 2 then f else if 1 / 2 < d then f + 1 else if even f then f else f + 1)"

definition ulp_exponent :: "real \<Rightarrow> int" where
  "ulp_exponent x = max (\<lfloor>log 2 \<bar>x\<bar>\<rfloor> - 52) (- 1074)"

definition fl :: "real \<Rightarrow> real" where
  "fl x =
     (if x = 0 then 0
      else of_int (round_half_even (x / 2 powr of_int (ulp_exponent x)))
             * 2 powr of_int (ulp_exponent x))"

text \<open>\<open>f64 x\<close>: the real \<open>x\<close> is a finite binary64 number.\<close>

definition f64 :: "real \<Rightarrow> bool" where
  "f64 x = (fl x = x \<and> \<bar>x\<bar> < 2 ^ 1024)"

text \<open>
  An operation whose rounded result is beyond the binary64 range delivers an infinity, and
  the code goes on with it (and with NaN from then on). The reals have no such values: the
  run of the model ends there with \<open>NonFinite\<close>. \<open>Raised e\<close> is an exception of the code.
\<close>

datatype stop = Raised error | NonFinite

fun fbind :: "stop + 'a \<Rightarrow> ('a \<Rightarrow> stop + 'b) \<Rightarrow> stop + 'b" where
  "fbind (Inl e) f = Inl e"
| "fbind (Inr x) f = f x"

fun raised :: "error + 'a \<Rightarrow> stop + 'a" where
  "raised (Inl e) = Inl (Raised e)"
| "raised (Inr x) = Inr x"

definition f64_op :: "real \<Rightarrow> stop + real" where
  "f64_op x = (if \<bar>fl x\<bar> < 2 ^ 1024 then Inr (fl x) else Inl NonFinite)"

text \<open>
  Line 9 compiles the engine with \<^verbatim>\<open>fastmath=True\<close>, which lets the compiler add the three
  terms in any order and contract a product into the operation that consumes it (a fused
  multiply-add rounds once, after the addition). An \<open>evaluation\<close> is one such choice, for
  \<open>p = prev[j-1]\<close>, the old product \<open>x = T_B[i-1]*T_A[j-1]\<close> and the new product
  \<open>y = T_B[i+m-1]*T_A[j+m-1]\<close>:
  \<^item> \<open>Sub_add cx cy\<close> is \<open>(p - x) + y\<close>, the order of the source;
  \<^item> \<open>Add_sub cx cy\<close> is \<open>(p + y) - x\<close>;
  \<^item> \<open>Products_first cx cy\<close> is \<open>p + (y - x)\<close>.

  \<open>cx\<close> says that the old product is contracted and \<open>cy\<close> that the new one is; the
  difference \<open>y - x\<close> can take one product only, the new one if both are asked for.
  \<open>Sub_add False False\<close> is the source as written, every operation rounded: IEEE 754
  arithmetic without \<^verbatim>\<open>fastmath\<close>.
\<close>

datatype evaluation = Sub_add bool bool | Add_sub bool bool | Products_first bool bool

definition product :: "bool \<Rightarrow> real \<Rightarrow> real \<Rightarrow> stop + real" where
  "product contracted u v = (if contracted then Inr (u * v) else f64_op (u * v))"

fun update_f64 :: "evaluation \<Rightarrow> real \<Rightarrow> real \<Rightarrow> real \<Rightarrow> real \<Rightarrow> real \<Rightarrow> stop + real" where
  "update_f64 (Sub_add cx cy) p b0 a0 b1 a1 =
     fbind (product cx b0 a0) (\<lambda>x.
     fbind (f64_op (p - x)) (\<lambda>d.
     fbind (product cy b1 a1) (\<lambda>y.
     f64_op (d + y))))"
| "update_f64 (Add_sub cx cy) p b0 a0 b1 a1 =
     fbind (product cy b1 a1) (\<lambda>y.
     fbind (f64_op (p + y)) (\<lambda>s.
     fbind (product cx b0 a0) (\<lambda>x.
     f64_op (s - x))))"
| "update_f64 (Products_first cx cy) p b0 a0 b1 a1 =
     fbind (product (cx \<and> \<not> cy) b0 a0) (\<lambda>x.
     fbind (product cy b1 a1) (\<lambda>y.
     fbind (f64_op (y - x)) (\<lambda>t.
     f64_op (p + t))))"

text \<open>
  The compiled loop may evaluate different iterations differently (a vectorised body and
  its remainder): \<open>ev i j\<close> is the evaluation of row \<open>i\<close>, column \<open>j\<close>.
\<close>

type_synonym compiled = "int \<Rightarrow> int \<Rightarrow> evaluation"

definition ieee :: compiled where
  "ieee = (\<lambda>i j. Sub_add False False)"

text \<open>
  Lines 121 and 124 in binary64, and the loops around them; the reads, the store, the
  seed of position 0 and the kernel call are those of the engine above.
\<close>

definition col_value_f64 :: "evaluation \<Rightarrow> engine_args \<Rightarrow> int \<Rightarrow> real list \<Rightarrow> int \<Rightarrow> stop + real" where
  "col_value_f64 e a i prev j =
     fbind (raised (nth_py prev (j - 1))) (\<lambda>p.
     fbind (raised (nth_py (T_B a) (i - 1))) (\<lambda>b0.
     fbind (raised (nth_py (T_A a) (j - 1))) (\<lambda>a0.
     fbind (raised (nth_py (T_B a) (i + m a - 1))) (\<lambda>b1.
     fbind (raised (nth_py (T_A a) (j + m a - 1))) (\<lambda>a1.
     update_f64 e p b0 a0 b1 a1)))))"

definition col_update_f64 ::
  "evaluation \<Rightarrow> engine_args \<Rightarrow> int \<Rightarrow> real list \<Rightarrow> real list \<Rightarrow> int \<Rightarrow> stop + real list" where
  "col_update_f64 e a i prev live j =
     fbind (col_value_f64 e a i prev j) (\<lambda>v. raised (set_py live j v))"

fun col_step_f64 :: "compiled \<Rightarrow> engine_args \<Rightarrow> int \<Rightarrow> buffers \<Rightarrow> int \<Rightarrow> stop + buffers" where
  "col_step_f64 ev a i (QT_odd, QT_even) j =
     (if i mod 2 = 0
      then fbind (col_update_f64 (ev i j) a i QT_odd QT_even j) (\<lambda>e. Inr (QT_odd, e))
      else fbind (col_update_f64 (ev i j) a i QT_even QT_odd j) (\<lambda>od. Inr (od, QT_even)))"

fun col_steps_f64 :: "compiled \<Rightarrow> engine_args \<Rightarrow> int \<Rightarrow> int list \<Rightarrow> buffers \<Rightarrow> stop + buffers" where
  "col_steps_f64 ev a i [] st = Inr st"
| "col_steps_f64 ev a i (j # js) st = fbind (col_step_f64 ev a i st j) (col_steps_f64 ev a i js)"

definition row_buffers_f64 :: "compiled \<Rightarrow> engine_args \<Rightarrow> int \<Rightarrow> buffers \<Rightarrow> stop + buffers" where
  "row_buffers_f64 ev a i st =
     fbind (col_steps_f64 ev a i (col_order (k a)) st) (\<lambda>st'. raised (seed_first a i st'))"

fun run_buffers_f64 :: "compiled \<Rightarrow> engine_args \<Rightarrow> int list \<Rightarrow> buffers \<Rightarrow> stop + buffers" where
  "run_buffers_f64 ev a [] st = Inr st"
| "run_buffers_f64 ev a (i # is) st = fbind (row_buffers_f64 ev a i st) (run_buffers_f64 ev a is)"

definition buffers_after_f64 ::
  "compiled \<Rightarrow> engine_args \<Rightarrow> real list \<Rightarrow> int \<Rightarrow> int \<Rightarrow> stop + buffers" where
  "buffers_after_f64 ev a QT range_start i = run_buffers_f64 ev a [range_start..i] (QT, QT)"

definition profile_at_f64 ::
  "compiled \<Rightarrow> kernel \<Rightarrow> engine_args \<Rightarrow> real list \<Rightarrow> int \<Rightarrow> int \<Rightarrow> stop + dist list" where
  "profile_at_f64 ev kern a QT range_start i =
     fbind (buffers_after_f64 ev a QT range_start i) (\<lambda>st. raised (row_profile kern a i st))"



section \<open>The driver \<^verbatim>\<open>mstump\<close>\<close>

text \<open>
  Lines 161 to 262. An array argument is its element type and its values; of the element
  types only a floating-point one and \<^verbatim>\<open>object\<close> are distinguished. The diagnostics
  (lines 221 to 227 and 257 to 260: the array-equality and small-distance tests and the
  calls of \<^verbatim>\<open>logger.warning\<close>) only write to the log and are not modelled.
\<close>

datatype dtype = Float64 | Object_dtype

record ndarray =
  dtype :: dtype
  vals :: "real list"

text \<open>
  The functions the driver calls that are not defined in \<^verbatim>\<open>mstump.py\<close>
  (\<^verbatim>\<open>core.check_dtype\<close>, \<^verbatim>\<open>core.compute_mean_std\<close>, \<^verbatim>\<open>_get_first_stump_profile\<close>,
  \<^verbatim>\<open>_get_QT\<close> and the kernel) are parameters of the model, the fields of
  \<open>collaborators\<close>.
\<close>

type_synonym engine_fn =
  "engine_args \<Rightarrow> real list \<Rightarrow> int \<Rightarrow> int \<Rightarrow> error + (dist list \<times> (int \<times> int \<times> int) list)"

record collaborators =
  check_dtype :: "ndarray \<Rightarrow> error + unit"
  compute_mean_std :: "ndarray \<Rightarrow> int \<Rightarrow> error + (real list \<times> real list)"
  get_first_stump_profile ::
    "int \<Rightarrow> ndarray \<Rightarrow> ndarray \<Rightarrow> int \<Rightarrow> int \<Rightarrow> real list \<Rightarrow> real list \<Rightarrow> bool \<Rightarrow> error + row"
  get_QT :: "int \<Rightarrow> ndarray \<Rightarrow> ndarray \<Rightarrow> int \<Rightarrow> error + (real list \<times> real list)"
  distance_kernel :: kernel

text \<open>
  Line 251 calls the engine by the global name \<^verbatim>\<open>_stump\<close>, looked up in the module
  when the call is reached. The module binds \<^verbatim>\<open>np\<close>, \<^verbatim>\<open>core\<close>, \<^verbatim>\<open>stamp\<close>,
  \<^verbatim>\<open>_get_first_stump_profile\<close>, \<^verbatim>\<open>_get_QT\<close>, \<^verbatim>\<open>_calculate_squared_distance_profile\<close>,
  \<^verbatim>\<open>njit\<close>, \<^verbatim>\<open>prange\<close>, \<^verbatim>\<open>logging\<close>, \<^verbatim>\<open>logger\<close>, \<^verbatim>\<open>_mstump\<close> and \<^verbatim>\<open>mstump\<close>
  (lines 1 to 10 and 161); a namespace maps a name to the engine bound to it, and
  \<open>module_namespace\<close> is the one of the file: the engine is bound to \<^verbatim>\<open>_mstump\<close>
  only. \<open>intended_namespace\<close> also binds \<^verbatim>\<open>_stump\<close> to the engine, as the
  docstring of \<^verbatim>\<open>mstump\<close> describes it; it is used to tell the effects of the
  unbound name from those of the rest of the driver.
\<close>

definition module_namespace :: "collaborators \<Rightarrow> string \<Rightarrow> engine_fn option" where
  "module_namespace c name =
     (if name = ''_mstump'' then Some (u_mstump (distance_kernel c)) else None)"

definition intended_namespace :: "collaborators \<Rightarrow> string \<Rightarrow> engine_fn option" where
  "intended_namespace c name =
     (if name = ''_stump'' \<or> name = ''_mstump'' then Some (u_mstump (distance_kernel c)) else None)"

text \<open>\<^verbatim>\<open>np.empty\<close> raises \<^verbatim>\<open>ValueError\<close> on a negative dimension.\<close>

definition np_empty :: "int \<Rightarrow> error + unit" where
  "np_empty len = (if len < 0 then Inl ValueError else Inr ())"

text \<open>
  Lines 229 to 262. \<^verbatim>\<open>profile[start] = ...\<close> raises \<^verbatim>\<open>IndexError\<close> when \<open>l = 0\<close>;
  the slice assignment of line 250 needs \<open>l - 1\<close> rows. The result is the list of the
  \<open>l\<close> rows of \<^verbatim>\<open>out\<close>.
\<close>

definition mstump_compute ::
  "collaborators \<Rightarrow> (string \<Rightarrow> engine_fn option) \<Rightarrow> ndarray \<Rightarrow> int \<Rightarrow> ndarray \<Rightarrow> bool \<Rightarrow>
   error + row list" where
  "mstump_compute c ns TA mm TB ign =
     (let n = int (length (vals TB));
          kk = int (length (vals TA)) - mm + 1;
          l = n - mm + 1;
          zone = \<lceil>real_of_int mm / 4\<rceil>
      in rbind (compute_mean_std c TA mm) (\<lambda>(MT, ST).
         rbind (compute_mean_std c TB mm) (\<lambda>(muQ, sgQ).
         rbind (np_empty l) (\<lambda>_.
         rbind (get_first_stump_profile c 0 TA TB mm zone MT ST ign) (\<lambda>row0.
         rbind (if 0 < l then Inr () else Inl IndexError) (\<lambda>_.
         rbind (get_QT c 0 TA TB mm) (\<lambda>(QT, QTf).
         rbind (case ns ''_stump'' of
                  None \<Rightarrow> Inl NameError
                | Some f \<Rightarrow>
                    f \<lparr>T_A = vals TA, T_B = vals TB, m = mm, excl_zone = zone, M_T = MT,
                       Sigma_T = ST, QT_first = QTf, mu_Q = muQ, sigma_Q = sgQ, k = kk,
                       ignore_trivial = ign\<rparr> QT l (0 + 1)) (\<lambda>(profile, indices).
         rbind (if int (length profile) = l - 1 \<and> length indices = length profile
                then Inr () else Inl ValueError) (\<lambda>_.
         Inr (row0 # zip profile indices))))))))))"

text \<open>Lines 215 to 219, then the computation.\<close>

definition mstump ::
  "collaborators \<Rightarrow> (string \<Rightarrow> engine_fn option) \<Rightarrow> ndarray \<Rightarrow> int \<Rightarrow> ndarray option \<Rightarrow> bool \<Rightarrow>
   error + row list" where
  "mstump c ns TA mm TB ignore_triv =
     rbind (check_dtype c TA) (\<lambda>_.
     (case (case TB of None \<Rightarrow> (TA, True) | Some b \<Rightarrow> (b, ignore_triv)) of
        (TB', ign) \<Rightarrow>
          rbind (check_dtype c TB') (\<lambda>_. mstump_compute c ns TA mm TB' ign)))"

subsection \<open>The collaborators as the spec describes them\<close>

text \<open>
  Modelled from the spec: the bodies of \<^verbatim>\<open>core.check_dtype\<close>,
  \<^verbatim>\<open>core.compute_mean_std\<close>, \<^verbatim>\<open>_get_QT\<close> and \<^verbatim>\<open>_get_first_stump_profile\<close> are
  missing. Section 6 of the spec: the validator fails (\<^verbatim>\<open>InvalidInputError\<close>) on an
  unsupported element type (the call passes the series only, no \<open>m\<close>); the mean and
  population standard deviation of every window, \<open>len - m + 1\<close> of them; \<open>QT\<close> for row
  0 and \<open>QT_first[i]\<close>, the dot product of query window \<open>i\<close> with reference window 0;
  the first row by brute-force dot products with the tie-break and masking rules of the
  engine. They are used to run the driver on concrete inputs.
\<close>

definition window :: "real list \<Rightarrow> nat \<Rightarrow> nat \<Rightarrow> real list" where
  "window xs mm i = take mm (drop i xs)"

definition mean :: "real list \<Rightarrow> real" where
  "mean w = sum_list w / real (length w)"

definition std :: "real list \<Rightarrow> real" where
  "std w = sqrt (sum_list (map (\<lambda>x. (x - mean w)\<^sup>2) w) / real (length w))"

definition spec_check_dtype :: "ndarray \<Rightarrow> error + unit" where
  "spec_check_dtype a = (if dtype a = Float64 then Inr () else Inl InvalidInputError)"

definition spec_compute_mean_std :: "ndarray \<Rightarrow> int \<Rightarrow> error + (real list \<times> real list)" where
  "spec_compute_mean_std a mm =
     (let starts = [0..<nat (int (length (vals a)) - mm + 1)]
      in Inr (map (\<lambda>i. mean (window (vals a) (nat mm) i)) starts,
              map (\<lambda>i. std (window (vals a) (nat mm) i)) starts))"

definition spec_get_QT :: "int \<Rightarrow> ndarray \<Rightarrow> ndarray \<Rightarrow> int \<Rightarrow> error + (real list \<times> real list)" where
  "spec_get_QT start TA TB mm =
     Inr (map (window_dot (vals TB) (vals TA) (nat mm) (nat start))
            [0..<nat (int (length (vals TA)) - mm + 1)],
          map (\<lambda>i. window_dot (vals TB) (vals TA) (nat mm) i 0)
            [0..<nat (int (length (vals TB)) - mm + 1)])"

definition spec_get_first_stump_profile ::
  "int \<Rightarrow> ndarray \<Rightarrow> ndarray \<Rightarrow> int \<Rightarrow> int \<Rightarrow> real list \<Rightarrow> real list \<Rightarrow> bool \<Rightarrow> error + row" where
  "spec_get_first_stump_profile start TA TB mm zone MT ST ign =
     (let QT = map (window_dot (vals TB) (vals TA) (nat mm) (nat start))
                 [0..<nat (int (length (vals TA)) - mm + 1)];
          w = window (vals TB) (nat mm) (nat start)
      in rbind (calculate_squared_distance_profile mm QT (mean w) (std w) MT ST)
           (extract_row ign zone start))"

definition spec_collab :: collaborators where
  "spec_collab =
     \<lparr>check_dtype = spec_check_dtype, compute_mean_std = spec_compute_mean_std,
      get_first_stump_profile = spec_get_first_stump_profile, get_QT = spec_get_QT,
      distance_kernel = calculate_squared_distance_profile\<rparr>"

text \<open>The series of the first run as a float array and as an object array.\<close>

definition ex_array :: ndarray where
  "ex_array = \<lparr>dtype = Float64, vals = [0, 2, 0, 2, 4, 2]\<rparr>"

definition obj_array :: ndarray where
  "obj_array = \<lparr>dtype = Object_dtype, vals = [0, 2, 0, 2, 4, 2]\<rparr>"

section \<open>Concrete inputs\<close>

subsection \<open>Two concrete runs\<close>

text \<open>
  A self-join of \<open>[0, 2, 0, 2, 4, 2]\<close> with \<open>m = 2\<close>: five windows, every window
  with standard deviation 1, \<open>zone = 1\<close>; \<open>QT\<close> holds the dot products of window 0.
\<close>

definition ex_args :: engine_args where
  "ex_args = \<lparr>T_A = [0, 2, 0, 2, 4, 2], T_B = [0, 2, 0, 2, 4, 2], m = 2, excl_zone = 1,
     M_T = [1, 1, 1, 3, 3], Sigma_T = [1, 1, 1, 1, 1], QT_first = [4, 0, 4, 8, 4],
     mu_Q = [1, 1, 1, 3, 3], sigma_Q = [1, 1, 1, 1, 1], k = 5, ignore_trivial = True\<rparr>"

definition ex_QT :: "real list" where
  "ex_QT = [4, 0, 4, 8, 4]"

text \<open>
  A self-join of \<open>[1, -1, -1, 1, 1]\<close> with \<open>m = 4\<close>: two windows, both with mean 0 and
  standard deviation 1, \<open>zone = 1\<close>; the exclusion zone of row 1 covers both windows.
\<close>

definition short_args :: engine_args where
  "short_args = \<lparr>T_A = [1, - 1, - 1, 1, 1], T_B = [1, - 1, - 1, 1, 1], m = 4, excl_zone = 1,
     M_T = [0, 0], Sigma_T = [1, 1], QT_first = [4, 0],
     mu_Q = [0, 0], sigma_Q = [1, 1], k = 2, ignore_trivial = True\<rparr>"

definition short_QT :: "real list" where
  "short_QT = [4, 0]"

text \<open>A parallel schedule of the four column updates of a row with \<open>k = 5\<close>.\<close>

definition ex_schedule :: "event list" where
  "ex_schedule = [Load 4, Load 2, Store 2, Load 1, Load 3, Store 4, Store 1, Store 3]"

text \<open>The short run on a store: \<open>T_A\<close> and \<open>T_B\<close> are the same array at address 0.\<close>

definition short_heap :: heap where
  "short_heap = [ [1, - 1, - 1, 1, 1], [0, 0], [1, 1], [0, 0], [1, 1], [4, 0], [4, 0] ]"

definition short_ptrs :: engine_ptrs where
  "short_ptrs = \<lparr>p_T_A = 0, p_T_B = 0, s_m = 4, s_excl_zone = 1, p_M_T = 1, p_Sigma_T = 2,
     p_QT_first = 6, p_mu_Q = 3, p_sigma_Q = 4, s_k = 2, s_ignore_trivial = True\<rparr>"

text \<open>The first run as an AB-join: the same arrays with \<open>ignore_trivial\<close> false.\<close>

definition ab_args :: engine_args where
  "ab_args = ex_args\<lparr>ignore_trivial := False\<rparr>"

text \<open>
  An AB-join with \<open>m = 2\<close> of \<open>T_A = [2^27 + 3, 5, 0]\<close> and \<open>T_B = [2^27 + 1, 1, 0]\<close>, two
  windows each; \<open>QT\<close> holds the dot products of window 0 of \<open>T_B\<close>, and the means and
  standard deviations are those of the windows. Every entry is a binary64 number.
\<close>

definition big_args :: engine_args where
  "big_args = \<lparr>T_A = [134217731, 5, 0], T_B = [134217729, 1, 0], m = 2, excl_zone = 1,
     M_T = [67108868, 5 / 2], Sigma_T = [67108863, 5 / 2],
     QT_first = [18014399046352904, 134217731],
     mu_Q = [67108865, 1 / 2], sigma_Q = [67108864, 1 / 2], k = 2, ignore_trivial = False\<rparr>"

definition big_QT :: "real list" where
  "big_QT = [18014399046352904, 671088645]"


section \<open>Facts about the array primitives\<close>

lemma argmin_scan_spec:
  assumes "length ps = pos" "best < pos" "ps ! best = bv"
    "\<forall>j<pos. bv \<le> ps ! j" "\<forall>j<best. bv < ps ! j"
  shows "argmin_scan xs pos best bv < pos + length xs \<and>
         (\<forall>j < pos + length xs. (ps @ xs) ! argmin_scan xs pos best bv \<le> (ps @ xs) ! j) \<and>
         (\<forall>j < argmin_scan xs pos best bv. (ps @ xs) ! argmin_scan xs pos best bv < (ps @ xs) ! j)"
  using assms
proof (induction xs arbitrary: ps pos best bv)
  case Nil
  then show ?case by simp
next
  case (Cons x xs)
  show ?case
  proof (cases "x < bv")
    case True
    have "argmin_scan xs (Suc pos) pos x < Suc pos + length xs \<and>
         (\<forall>j < Suc pos + length xs. ((ps @ [x]) @ xs) ! argmin_scan xs (Suc pos) pos x \<le> ((ps @ [x]) @ xs) ! j) \<and>
         (\<forall>j < argmin_scan xs (Suc pos) pos x. ((ps @ [x]) @ xs) ! argmin_scan xs (Suc pos) pos x < ((ps @ [x]) @ xs) ! j)"
    proof (rule Cons.IH)
      show "length (ps @ [x]) = Suc pos" using Cons.prems by simp
      show "pos < Suc pos" by simp
      show "(ps @ [x]) ! pos = x" using Cons.prems(1) by (auto simp: nth_append)
      show "\<forall>j<Suc pos. x \<le> (ps @ [x]) ! j"
        using Cons.prems True by (auto simp: nth_append less_Suc_eq intro: order.trans less_imp_le)
      show "\<forall>j<pos. x < (ps @ [x]) ! j"
        using Cons.prems True by (auto simp: nth_append intro: less_le_trans)
    qed
    with True show ?thesis by simp
  next
    case False
    have "argmin_scan xs (Suc pos) best bv < Suc pos + length xs \<and>
         (\<forall>j < Suc pos + length xs. ((ps @ [x]) @ xs) ! argmin_scan xs (Suc pos) best bv \<le> ((ps @ [x]) @ xs) ! j) \<and>
         (\<forall>j < argmin_scan xs (Suc pos) best bv. ((ps @ [x]) @ xs) ! argmin_scan xs (Suc pos) best bv < ((ps @ [x]) @ xs) ! j)"
    proof (rule Cons.IH)
      show "length (ps @ [x]) = Suc pos" using Cons.prems by simp
      show "best < Suc pos" using Cons.prems by simp
      show "(ps @ [x]) ! best = bv" using Cons.prems by (simp add: nth_append)
      show "\<forall>j<Suc pos. bv \<le> (ps @ [x]) ! j"
        using Cons.prems False by (auto simp: nth_append less_Suc_eq)
      show "\<forall>j<best. bv < (ps @ [x]) ! j"
        using Cons.prems by (auto simp: nth_append)
    qed
    with False show ?thesis by simp
  qed
qed

lemma np_argmin_Inr:
  assumes "np_argmin D = Inr I"
  shows "0 \<le> I \<and> I < int (length D) \<and> (\<forall>j<length D. D ! nat I \<le> D ! j) \<and>
         (\<forall>j<nat I. D ! nat I < D ! j)"
proof (cases D)
  case Nil
  with assms show ?thesis by (simp add: np_argmin_def)
next
  case (Cons x xs)
  have s: "argmin_scan xs 1 0 x < 1 + length xs \<and>
         (\<forall>j < 1 + length xs. ([x] @ xs) ! argmin_scan xs 1 0 x \<le> ([x] @ xs) ! j) \<and>
         (\<forall>j < argmin_scan xs 1 0 x. ([x] @ xs) ! argmin_scan xs 1 0 x < ([x] @ xs) ! j)"
    by (rule argmin_scan_spec) simp_all
  from assms Cons have I: "I = int (argmin_scan xs 1 0 x)" by (simp add: np_argmin_def)
  show ?thesis using s unfolding I Cons by simp
qed

lemma np_argmin_total: "D \<noteq> [] \<Longrightarrow> \<exists>I. np_argmin D = Inr I"
  by (cases D) (simp_all add: np_argmin_def)

lemma np_argmin_empty: "np_argmin [] = Inl ValueError"
  by (simp add: np_argmin_def)

lemma rbind_Inr_iff: "rbind x f = Inr y \<longleftrightarrow> (\<exists>v. x = Inr v \<and> f v = Inr y)"
  by (cases x) simp_all

lemma rbind_Inl_iff: "rbind x f = Inl e \<longleftrightarrow> (x = Inl e \<or> (\<exists>v. x = Inr v \<and> f v = Inl e))"
  by (cases x) simp_all

lemma py_index_nonneg: "0 \<le> i \<Longrightarrow> py_index n i = (if i < int n then Inr (nat i) else Inl IndexError)"
  by (simp add: py_index_def)

lemma nth_py_nonneg:
  "0 \<le> i \<Longrightarrow> nth_py xs i = (if i < int (length xs) then Inr (xs ! nat i) else Inl IndexError)"
  by (simp add: nth_py_def py_index_nonneg)

lemma set_py_nonneg:
  "0 \<le> i \<Longrightarrow> set_py xs i v = (if i < int (length xs) then Inr (xs[nat i := v]) else Inl IndexError)"
  by (simp add: set_py_def py_index_nonneg)

lemma set_py_length: "set_py xs i v = Inr ys \<Longrightarrow> length ys = length xs"
  by (auto simp: set_py_def rbind_Inr_iff)

lemma slice_bound_le: "slice_bound n x \<le> n"
  by (auto simp: slice_bound_def)

lemma slice_bound_nonneg: "0 \<le> x \<Longrightarrow> slice_bound n x = min (nat x) n"
  by (auto simp: slice_bound_def)

lemma length_mask_slice: "length (mask_slice D a b) = length D"
  by (simp add: mask_slice_def Let_def)

lemma nth_mask_slice:
  "t < length D \<Longrightarrow> mask_slice D a b ! t =
     (if slice_bound (length D) a \<le> t \<and> t < slice_bound (length D) b then PInf else D ! t)"
  by (simp add: mask_slice_def Let_def)

lemma length_masked: "length (masked ign zone i D) = length D"
  by (simp add: masked_def length_mask_slice)

lemma nth_masked:
  assumes "0 \<le> i + zone + 1" "t < length D"
  shows "masked True zone i D ! t =
           (if max 0 (i - zone) \<le> int t \<and> int t < i + zone + 1 then PInf else D ! t)"
proof -
  have lo: "slice_bound (length D) (max 0 (i - zone)) = min (nat (max 0 (i - zone))) (length D)"
    by (rule slice_bound_nonneg) simp
  have hi: "slice_bound (length D) (i + zone + 1) = min (nat (i + zone + 1)) (length D)"
    by (rule slice_bound_nonneg) (rule assms(1))
  show ?thesis
    using assms unfolding masked_def by (simp only: if_True nth_mask_slice lo hi) auto
qed

lemma dist_le_PInf: "(d::dist) \<le> PInf"
  by (simp add: less_eq_dist_def)

lemma dist_PInf_le: "PInf \<le> (d::dist) \<longleftrightarrow> d = PInf"
  by (cases d) (simp_all add: less_eq_dist_def)

lemma dist_less_PInf: "(d::dist) < PInf \<longleftrightarrow> d \<noteq> PInf"
  by (cases d) (simp_all add: less_dist_def)

lemma dist_Fin_le: "Fin x \<le> Fin y \<longleftrightarrow> x \<le> y"
  by (simp add: less_eq_dist_def)

lemma dist_Fin_less: "Fin x < Fin y \<longleftrightarrow> x < y"
  by (auto simp add: less_dist_def)

lemma dist_PInf_less: "\<not> PInf < (d::dist)"
  by (cases d) (simp_all add: less_dist_def)

lemma left_index_bound:
  assumes "left_index ign zone i D = Inr IL"
  shows "(IL \<noteq> - 1 \<longrightarrow> 0 \<le> IL \<and> IL < i \<and> IL < int (length D) \<and> \<not> (i - zone \<le> IL \<and> IL \<le> i + zone))
       \<and> (\<not> ign \<longrightarrow> IL = - 1)"
proof (cases "ign \<and> i > 0")
  case False
  with assms show ?thesis by (auto simp: left_index_def)
next
  case True
  with assms obtain r where r: "np_argmin (slice_to D i) = Inr r"
    and IL: "IL = (if max 0 (i - zone) \<le> r \<and> r < i + zone + 1 then - 1 else r)"
    by (auto simp: left_index_def rbind_Inr_iff)
  from np_argmin_Inr[OF r] have "0 \<le> r" "r < int (length (slice_to D i))" by simp_all
  moreover have "length (slice_to D i) \<le> nat i" "length (slice_to D i) \<le> length D"
    using True by (simp_all add: slice_to_def slice_bound_nonneg)
  ultimately show ?thesis using IL True by (auto split: if_splits)
qed

lemma right_index_bound:
  assumes "right_index ign zone i D = Inr IR"
  shows "(IR \<noteq> - 1 \<longrightarrow> i < IR \<and> \<not> (max 0 (i - zone) \<le> IR \<and> IR \<le> i + zone))
       \<and> (\<not> ign \<longrightarrow> IR = - 1)"
proof (cases "ign \<and> i + 1 < int (length D)")
  case False
  with assms show ?thesis by (auto simp: right_index_def)
next
  case True
  with assms obtain r where r: "np_argmin (slice_from D (i + 1)) = Inr r"
    and IR: "IR = (if max 0 (i - zone) \<le> i + 1 + r \<and> i + 1 + r < i + zone + 1 then - 1 else i + 1 + r)"
    by (auto simp: right_index_def rbind_Inr_iff Let_def)
  from np_argmin_Inr[OF r] have "0 \<le> r" by simp
  then show ?thesis using IR True by (auto split: if_splits)
qed

lemma extract_row_Inr:
  assumes "extract_row ign zone i D0 = Inr (P, I, IL, IR)"
  shows "np_argmin (masked ign zone i D0) = Inr I"
    and "P = dsqrt (masked ign zone i D0 ! nat I)"
    and "left_index ign zone i (masked ign zone i D0) = Inr IL"
    and "right_index ign zone i (masked ign zone i D0) = Inr IR"
proof -
  from assms obtain d where 1: "np_argmin (masked ign zone i D0) = Inr I"
    and 2: "nth_py (masked ign zone i D0) I = Inr d" and 3: "P = dsqrt d"
    and 4: "left_index ign zone i (masked ign zone i D0) = Inr IL"
    and 5: "right_index ign zone i (masked ign zone i D0) = Inr IR"
    by (auto simp: extract_row_def Let_def rbind_Inr_iff)
  from np_argmin_Inr[OF 1] have "0 \<le> I" "I < int (length (masked ign zone i D0))" by simp_all
  with 2 have "d = masked ign zone i D0 ! nat I" by (simp add: nth_py_nonneg)
  with 1 3 4 5 show "np_argmin (masked ign zone i D0) = Inr I"
    "P = dsqrt (masked ign zone i D0 ! nat I)"
    "left_index ign zone i (masked ign zone i D0) = Inr IL"
    "right_index ign zone i (masked ign zone i D0) = Inr IR" by simp_all
qed

lemma left_index_total: "D \<noteq> [] \<Longrightarrow> \<exists>IL. left_index ign zone i D = Inr IL"
proof (cases "ign \<and> i > 0")
  case False
  then show ?thesis by (auto simp: left_index_def)
next
  case True
  assume "D \<noteq> []"
  with True have "slice_to D i \<noteq> []" by (auto simp: slice_to_def slice_bound_nonneg)
  from np_argmin_total[OF this] True show ?thesis by (auto simp: left_index_def)
qed

lemma right_index_total: "0 \<le> i \<Longrightarrow> \<exists>IR. right_index ign zone i D = Inr IR"
proof (cases "ign \<and> i + 1 < int (length D)")
  case False
  then show ?thesis by (auto simp: right_index_def)
next
  case True
  assume "0 \<le> i"
  with True have "slice_from D (i + 1) \<noteq> []" by (auto simp: slice_from_def slice_bound_nonneg)
  from np_argmin_total[OF this] True show ?thesis by (auto simp: right_index_def Let_def)
qed

lemma extract_row_total:
  assumes "D0 \<noteq> []" "0 \<le> i"
  shows "\<exists>r. extract_row ign zone i D0 = Inr r"
proof -
  let ?D = "masked ign zone i D0"
  have ne: "?D \<noteq> []" using assms(1) length_masked[of ign zone i D0] by (metis length_0_conv)
  from np_argmin_total[OF ne] obtain I where I: "np_argmin ?D = Inr I" ..
  from np_argmin_Inr[OF I] have "nth_py ?D I = Inr (?D ! nat I)" by (simp add: nth_py_nonneg)
  moreover from left_index_total[OF ne] obtain IL where "left_index ign zone i ?D = Inr IL" ..
  moreover from right_index_total[OF assms(2)] obtain IR where "right_index ign zone i ?D = Inr IR" ..
  ultimately show ?thesis using I by (simp add: extract_row_def Let_def)
qed

section \<open>Every emitted row comes from one kernel call\<close>

lemma run_buffers_append:
  "run_buffers a (xs @ ys) st = rbind (run_buffers a xs st) (run_buffers a ys)"
proof (induction xs arbitrary: st)
  case Nil
  show ?case by simp
next
  case (Cons x xs)
  show ?case by (cases "row_buffers a x st") (simp_all add: Cons.IH)
qed

lemma take_Suc_upto:
  assumes "lo + int r \<le> hi"
  shows "take (Suc r) [lo..hi] = [lo..lo + int r]"
proof -
  have "[lo..hi] = [lo..lo + int r] @ [lo + int r + 1..hi]"
    by (rule upto_split2) (use assms in simp_all)
  moreover have "length [lo..lo + int r] = Suc r" by simp
  ultimately show ?thesis by (metis append_eq_conv_conj)
qed

lemma rows_loop_rows:
  assumes "rows_loop kern a is st = Inr (st', rs)"
  shows "length rs = length is \<and> run_buffers a is st = Inr st' \<and>
         (\<forall>r<length is. \<exists>st_r D0. run_buffers a (take (Suc r) is) st = Inr st_r \<and>
             row_profile kern a (is ! r) st_r = Inr D0 \<and>
             extract_row (ignore_trivial a) (excl_zone a) (is ! r) D0 = Inr (rs ! r))"
  using assms
proof (induction "is" arbitrary: st st' rs)
  case Nil
  then show ?case by simp
next
  case (Cons i "is")
  from Cons.prems obtain st1 r0 rs' where
    step: "row_step kern a i st = Inr (st1, r0)"
    and rest: "rows_loop kern a is st1 = Inr (st', rs')"
    and rs: "rs = r0 # rs'"
    by (auto simp: rbind_Inr_iff)
  from step obtain D0 where
    b: "row_buffers a i st = Inr st1"
    and p: "row_profile kern a i st1 = Inr D0"
    and e: "extract_row (ignore_trivial a) (excl_zone a) i D0 = Inr r0"
    by (auto simp: row_step_def rbind_Inr_iff)
  note IH = Cons.IH[OF rest]
  have "length rs = length (i # is)" using IH rs by simp
  moreover have "run_buffers a (i # is) st = Inr st'" using IH b by simp
  moreover have "\<exists>st_r D0. run_buffers a (take (Suc r) (i # is)) st = Inr st_r \<and>
             row_profile kern a ((i # is) ! r) st_r = Inr D0 \<and>
             extract_row (ignore_trivial a) (excl_zone a) ((i # is) ! r) D0 = Inr (rs ! r)"
    if "r < length (i # is)" for r
  proof (cases r)
    case 0
    then show ?thesis using b p e rs by simp
  next
    case (Suc r')
    with that have "r' < length is" by simp
    with IH obtain st_r D1 where "run_buffers a (take (Suc r') is) st1 = Inr st_r"
      "row_profile kern a (is ! r') st_r = Inr D1"
      "extract_row (ignore_trivial a) (excl_zone a) (is ! r') D1 = Inr (rs' ! r')"
      by blast
    then show ?thesis using Suc b rs by simp
  qed
  ultimately show ?case by blast
qed

lemma u_mstump_rows:
  assumes "u_mstump kern a QT range_stop range_start = Inr (profile, indices)"
  shows "length profile = nat (range_stop - range_start)"
    and "length indices = nat (range_stop - range_start)"
    and "r < nat (range_stop - range_start) \<Longrightarrow>
           \<exists>D0. profile_at kern a QT range_start (range_start + int r) = Inr D0 \<and>
             extract_row (ignore_trivial a) (excl_zone a) (range_start + int r) D0
               = Inr (profile ! r, indices ! r)"
proof -
  from assms obtain st' rs where
    run: "u_mstump_run kern a QT range_stop range_start = Inr (st', rs)"
    and out: "profile = map fst rs" "indices = map snd rs"
    by (auto simp: u_mstump_def rbind_Inr_iff)
  from run have ge: "range_start \<le> range_stop"
    and loop: "rows_loop kern a [range_start..range_stop - 1] (QT, QT) = Inr (st', rs)"
    by (auto simp: u_mstump_run_def split: if_splits)
  note R = rows_loop_rows[OF loop]
  from R have len: "length rs = nat (range_stop - range_start)" by simp
  show "length profile = nat (range_stop - range_start)"
    and "length indices = nat (range_stop - range_start)"
    using len out by simp_all
  assume r: "r < nat (range_stop - range_start)"
  then have r': "r < length [range_start..range_stop - 1]" by simp
  from r have le: "range_start + int r \<le> range_stop - 1" by linarith
  from R r' obtain st_r D0 where
    1: "run_buffers a (take (Suc r) [range_start..range_stop - 1]) (QT, QT) = Inr st_r"
    and 2: "row_profile kern a ([range_start..range_stop - 1] ! r) st_r = Inr D0"
    and 3: "extract_row (ignore_trivial a) (excl_zone a) ([range_start..range_stop - 1] ! r) D0
             = Inr (rs ! r)"
    by blast
  have nth: "[range_start..range_stop - 1] ! r = range_start + int r"
    using le by simp
  have "profile_at kern a QT range_start (range_start + int r) = Inr D0"
    using 1 2 unfolding nth take_Suc_upto[OF le] by (simp add: profile_at_def buffers_after_def)
  moreover have "rs ! r = (profile ! r, indices ! r)"
    using out len r by simp
  ultimately show "\<exists>D0. profile_at kern a QT range_start (range_start + int r) = Inr D0 \<and>
             extract_row (ignore_trivial a) (excl_zone a) (range_start + int r) D0
               = Inr (profile ! r, indices ! r)"
    using 3 unfolding nth by auto
qed

section \<open>Concrete runs and row extraction\<close>

lemmas engine_eval_defs =
  u_mstump_def u_mstump_run_def upto_rec1 row_step_def row_buffers_def col_order_def
  col_update_def col_value_def nth_py_def set_py_def py_index_def row_profile_def
  calculate_squared_distance_profile_def extract_row_def masked_def mask_slice_def
  slice_bound_def np_argmin_def left_index_def right_index_def slice_to_def slice_from_def
  less_dist_def Let_def profile_at_def buffers_after_def

lemma ex_run:
  "u_mstump calculate_squared_distance_profile ex_args ex_QT 5 1 =
     Inr ([Fin 0, Fin 0, Fin 0, Fin 0], [(4, - 1, 4), (0, 0, 4), (0, 0, - 1), (1, 1, - 1)])"
  by (simp add: ex_args_def ex_QT_def engine_eval_defs)

lemma ab_run:
  "u_mstump calculate_squared_distance_profile ab_args ex_QT 5 1 =
     Inr ([Fin 0, Fin 0, Fin 0, Fin 0], [(1, - 1, - 1), (0, - 1, - 1), (0, - 1, - 1), (1, - 1, - 1)])"
  by (simp add: ab_args_def ex_args_def ex_QT_def engine_eval_defs)

lemma short_run:
  "u_mstump calculate_squared_distance_profile short_args short_QT 2 1 =
     Inr ([PInf], [(0, - 1, - 1)])"
  by (simp add: short_args_def short_QT_def engine_eval_defs)

lemma short_profile:
  "profile_at calculate_squared_distance_profile short_args short_QT 1 1 = Inr [Fin 8, Fin 0]"
  by (simp add: short_args_def short_QT_def engine_eval_defs)

lemma right_index_lt_length:
  assumes "right_index ign zone i D = Inr IR" "0 \<le> i"
  shows "IR < int (length D)"
proof (cases "ign \<and> i + 1 < int (length D)")
  case False
  with assms show ?thesis by (auto simp: right_index_def)
next
  case True
  with assms obtain r where r: "np_argmin (slice_from D (i + 1)) = Inr r"
    and IR: "IR = (if max 0 (i - zone) \<le> i + 1 + r \<and> i + 1 + r < i + zone + 1 then - 1 else i + 1 + r)"
    by (auto simp: right_index_def rbind_Inr_iff Let_def)
  from np_argmin_Inr[OF r] have "r < int (length (slice_from D (i + 1)))" by simp
  moreover have "length (slice_from D (i + 1)) = length D - nat (i + 1)"
    using assms(2) True by (simp add: slice_from_def slice_bound_nonneg)
  ultimately show ?thesis using IR True assms(2) by (auto split: if_splits)
qed

lemma masked_all_PInf:
  assumes "0 \<le> i" "i \<le> zone" "int (length D0) \<le> i + zone + 1"
  shows "masked True zone i D0 = replicate (length D0) PInf"
proof (rule nth_equalityI)
  show "length (masked True zone i D0) = length (replicate (length D0) PInf)"
    by (simp add: length_masked)
next
  fix t assume "t < length (masked True zone i D0)"
  then have t: "t < length D0" by (simp add: length_masked)
  have "0 \<le> i + zone + 1" using assms by linarith
  from nth_masked[OF this t] t assms show "masked True zone i D0 ! t = replicate (length D0) PInf ! t"
    by auto
qed

lemma extract_row_fully_masked:
  assumes E: "extract_row True zone i D0 = Inr (P, I, IL, IR)"
    and i: "0 \<le> i" "i \<le> zone" and len: "int (length D0) \<le> i + zone + 1"
  shows "P = PInf \<and> I = 0 \<and> IL = - 1 \<and> IR = - 1"
proof -
  let ?D = "masked True zone i D0"
  have D: "?D = replicate (length D0) PInf" by (rule masked_all_PInf[OF i len])
  note R = extract_row_Inr[OF E]
  from np_argmin_Inr[OF R(1)] have I0: "0 \<le> I" and I1: "I < int (length ?D)"
    and strict: "\<forall>j<nat I. ?D ! nat I < ?D ! j" by simp_all
  have "I = 0"
  proof (rule ccontr)
    assume "I \<noteq> 0"
    with I0 have "0 < nat I" by simp
    with strict have "?D ! nat I < ?D ! 0" by blast
    moreover have "nat I < length D0" using I0 I1 unfolding D by simp
    then have "0 < length D0" by linarith
    with \<open>nat I < length D0\<close> have "?D ! 0 = PInf" "?D ! nat I = PInf"
      unfolding D by simp_all
    ultimately show False by simp
  qed
  moreover have "P = PInf" using R(2) I1 unfolding \<open>I = 0\<close> D by simp
  moreover have "IL = - 1" using left_index_bound[OF R(3)] i by auto
  moreover have "IR = - 1"
    using right_index_bound[OF R(4)] right_index_lt_length[OF R(4) i(1)] i len
    by (auto simp: length_masked)
  ultimately show ?thesis by simp
qed

lemma extract_row_outside_zone:
  assumes E: "extract_row True zone i D0 = Inr (P, I, IL, IR)"
    and i: "0 \<le> i" and z: "0 \<le> zone"
  shows "(IL \<noteq> - 1 \<longrightarrow> \<not> (i - zone \<le> IL \<and> IL \<le> i + zone)) \<and>
         (IR \<noteq> - 1 \<longrightarrow> \<not> (i - zone \<le> IR \<and> IR \<le> i + zone)) \<and>
         (P \<noteq> PInf \<longrightarrow> \<not> (i - zone \<le> I \<and> I \<le> i + zone))"
proof -
  let ?D = "masked True zone i D0"
  note R = extract_row_Inr[OF E]
  from np_argmin_Inr[OF R(1)] have I0: "0 \<le> I" and I1: "nat I < length D0"
    by (auto simp: length_masked)
  have zs: "0 \<le> i + zone + 1" using i z by linarith
  have "\<not> (i - zone \<le> I \<and> I \<le> i + zone)" if "P \<noteq> PInf"
  proof
    assume "i - zone \<le> I \<and> I \<le> i + zone"
    with nth_masked[OF zs I1] I0 have "?D ! nat I = PInf" by auto
    with R(2) that show False by simp
  qed
  moreover from left_index_bound[OF R(3)]
  have "IL \<noteq> - 1 \<longrightarrow> \<not> (i - zone \<le> IL \<and> IL \<le> i + zone)" by blast
  moreover from right_index_bound[OF R(4)] i
  have "IR \<noteq> - 1 \<longrightarrow> \<not> (i - zone \<le> IR \<and> IR \<le> i + zone)" by auto
  ultimately show ?thesis by blast
qed

section \<open>The column loop\<close>

lemma nth_py_error: "nth_py xs i = Inl e \<Longrightarrow> e = IndexError"
  by (auto simp: nth_py_def py_index_def Let_def rbind_Inl_iff split: if_splits)

lemma set_py_error: "set_py xs i v = Inl e \<Longrightarrow> e = IndexError"
  by (auto simp: set_py_def py_index_def Let_def rbind_Inl_iff split: if_splits)

lemma col_value_error: "col_value a i prev j = Inl e \<Longrightarrow> e = IndexError"
  by (auto simp: col_value_def rbind_Inl_iff dest: nth_py_error)

lemma col_step_eq:
  "col_step a i st j =
     rbind (col_update a i (prev_buffer i st) (live_buffer i st) j) (\<lambda>l. Inr (set_live i st l))"
  by (cases st) simp

lemma prev_buffer_set_live: "prev_buffer i (set_live i st l) = prev_buffer i st"
  by (cases st) simp

lemma live_buffer_set_live: "live_buffer i (set_live i st l) = l"
  by (cases st) simp

lemma set_live_set_live: "set_live i (set_live i st l) l' = set_live i st l'"
  by (cases st) simp

lemma set_live_live_buffer: "set_live i st (live_buffer i st) = st"
  by (cases st) simp

text \<open>The buffer written by a list of column updates, each value read from \<open>prev\<close>.\<close>

lemma col_steps_char:
  assumes "\<forall>j\<in>set js. 0 \<le> j"
  shows "col_steps a i js st =
     (if \<forall>j\<in>set js. j < int (length (live_buffer i st)) \<and>
                      (\<exists>v. col_value a i (prev_buffer i st) j = Inr v)
      then Inr (set_live i st
             (map (\<lambda>t. if int t \<in> set js then projr (col_value a i (prev_buffer i st) (int t))
                        else live_buffer i st ! t)
                [0..<length (live_buffer i st)]))
      else Inl IndexError)"
  using assms
proof (induction js arbitrary: st)
  case Nil
  show ?case by (simp add: map_nth set_live_live_buffer)
next
  case (Cons j js)
  let ?prev = "prev_buffer i st" and ?live = "live_buffer i st"
  from Cons.prems have j0: "0 \<le> j" and js0: "\<forall>j\<in>set js. 0 \<le> j" by simp_all
  show ?case
  proof (cases "col_value a i ?prev j")
    case (Inl e)
    then have "e = IndexError" by (rule col_value_error)
    with Inl show ?thesis by (auto simp: col_step_eq col_update_def)
  next
    case (Inr v)
    show ?thesis
    proof (cases "j < int (length ?live)")
      case False
      with Inr j0 show ?thesis by (auto simp: col_step_eq col_update_def set_py_nonneg)
    next
      case True
      let ?st1 = "set_live i st (?live[nat j := v])"
      have step: "col_step a i st j = Inr ?st1"
        using Inr True j0 by (simp add: col_step_eq col_update_def set_py_nonneg)
      have eq: "map (\<lambda>t. if int t \<in> set js then projr (col_value a i ?prev (int t))
                        else (?live[nat j := v]) ! t) [0..<length ?live]
              = map (\<lambda>t. if int t \<in> set (j # js) then projr (col_value a i ?prev (int t))
                        else ?live ! t) [0..<length ?live]"
      proof (rule map_cong[OF refl])
        fix t assume "t \<in> set [0..<length ?live]"
        then have t: "t < length ?live" by simp
        show "(if int t \<in> set js then projr (col_value a i ?prev (int t)) else (?live[nat j := v]) ! t)
            = (if int t \<in> set (j # js) then projr (col_value a i ?prev (int t)) else ?live ! t)"
        proof (cases "int t = j")
          case True
          then have "nat j = t" by simp
          with t Inr True show ?thesis by auto
        next
          case False
          then have "nat j \<noteq> t" using j0 by auto
          with False show ?thesis by simp
        qed
      qed
      have IH: "col_steps a i js ?st1 =
          (if \<forall>j\<in>set js. j < int (length ?live) \<and> (\<exists>v. col_value a i ?prev j = Inr v)
           then Inr (set_live i st
                  (map (\<lambda>t. if int t \<in> set js then projr (col_value a i ?prev (int t))
                        else (?live[nat j := v]) ! t) [0..<length ?live]))
           else Inl IndexError)"
        using Cons.IH[OF js0, of ?st1]
        unfolding prev_buffer_set_live live_buffer_set_live set_live_set_live length_list_update .
      have "col_steps a i (j # js) st = col_steps a i js ?st1"
        using step by simp
      also note IH
      finally show ?thesis
        unfolding eq using Inr True by auto
    qed
  qed
qed

lemma col_steps_set_cong:
  assumes "set js = set js'" "\<forall>j\<in>set js. 0 \<le> j"
  shows "col_steps a i js st = col_steps a i js' st"
proof -
  from assms have "\<forall>j\<in>set js'. 0 \<le> j" by simp
  from col_steps_char[OF assms(2), of a i st] col_steps_char[OF this, of a i st] assms(1)
  show ?thesis by simp
qed

lemma set_col_order: "set (col_order kk) = {1..kk - 1}"
  by (auto simp: col_order_def image_iff)

section \<open>The recurrence against the brute-force dot products\<close>

lemma window_dot_slide:
  "window_dot TB TA mm (Suc i) (Suc j) =
     window_dot TB TA mm i j - TB ! i * TA ! j + TB ! (i + mm) * TA ! (j + mm)"
  by (induction mm) (simp_all add: window_dot_def)

lemma parity_flip: "((i + 1) mod 2 = 0) = (i mod 2 \<noteq> (0::int))"
  by presburger

lemma prev_buffer_Suc: "prev_buffer (i + 1) st = live_buffer i st"
  by (cases st) (simp add: parity_flip)

lemma live_buffer_Suc: "live_buffer (i + 1) st = prev_buffer i st"
  by (cases st) (simp add: parity_flip)

lemma seed_first_eq:
  "seed_first a i st =
     rbind (nth_py (QT_first a) i) (\<lambda>q.
     rbind (set_py (live_buffer i st) 0 q) (\<lambda>l. Inr (set_live i st l)))"
  by (cases st) simp

lemma length_direct_QT: "length (direct_QT a i) = nat (k a)"
  by (simp add: direct_QT_def)

lemma nth_direct_QT:
  "t < nat (k a) \<Longrightarrow> direct_QT a i ! t = window_dot (T_B a) (T_A a) (nat (m a)) (nat i) t"
  by (simp add: direct_QT_def)

lemma col_value_direct:
  assumes i: "1 \<le> i" "i + m a - 1 < int (length (T_B a))"
    and m: "0 < m a"
    and lenA: "int (length (T_A a)) = k a + m a - 1"
    and j: "1 \<le> j" "j \<le> k a - 1"
  shows "col_value a i (direct_QT a (i - 1)) j
           = Inr (window_dot (T_B a) (T_A a) (nat (m a)) (nat i) (nat j))"
proof -
  have p: "nth_py (direct_QT a (i - 1)) (j - 1)
             = Inr (window_dot (T_B a) (T_A a) (nat (m a)) (nat (i - 1)) (nat (j - 1)))"
    using j by (simp add: nth_py_nonneg length_direct_QT nth_direct_QT)
  have b0: "nth_py (T_B a) (i - 1) = Inr (T_B a ! nat (i - 1))"
    using i m by (simp add: nth_py_nonneg)
  have a0: "nth_py (T_A a) (j - 1) = Inr (T_A a ! nat (j - 1))"
    using j m lenA by (simp add: nth_py_nonneg)
  have b1: "nth_py (T_B a) (i + m a - 1) = Inr (T_B a ! nat (i + m a - 1))"
    using i m by (simp add: nth_py_nonneg)
  have a1: "nth_py (T_A a) (j + m a - 1) = Inr (T_A a ! nat (j + m a - 1))"
    using j m lenA by (simp add: nth_py_nonneg)
  have si: "nat i = Suc (nat (i - 1))" and sj: "nat j = Suc (nat (j - 1))"
    using i j by simp_all
  have ei: "nat (i + m a - 1) = nat (i - 1) + nat (m a)"
    and ej: "nat (j + m a - 1) = nat (j - 1) + nat (m a)"
    using i j m by (simp_all add: nat_add_distrib[symmetric])
  show ?thesis
    unfolding col_value_def p b0 a0 b1 a1 rbind.simps si sj window_dot_slide ei ej ..
qed

lemma row_buffers_direct:
  assumes inv: "length (live_buffer i st) = nat (k a)" "prev_buffer i st = direct_QT a (i - 1)"
    and i: "1 \<le> i" "i + m a - 1 < int (length (T_B a))"
    and m: "0 < m a" and k: "1 \<le> k a"
    and lenA: "int (length (T_A a)) = k a + m a - 1"
    and qf: "i < int (length (QT_first a))"
      "QT_first a ! nat i = window_dot (T_B a) (T_A a) (nat (m a)) (nat i) 0"
  shows "\<exists>st'. row_buffers a i st = Inr st' \<and> live_buffer i st' = direct_QT a i \<and>
           prev_buffer i st' = direct_QT a (i - 1)"
proof -
  let ?w = "window_dot (T_B a) (T_A a) (nat (m a)) (nat i)"
  let ?live = "map (\<lambda>t. if int t \<in> set (col_order (k a))
                        then projr (col_value a i (prev_buffer i st) (int t))
                        else live_buffer i st ! t) [0..<length (live_buffer i st)]"
  have cv: "col_value a i (prev_buffer i st) j = Inr (?w (nat j))" if "j \<in> set (col_order (k a))" for j
    using that col_value_direct[OF i m lenA, of j] unfolding inv(2) set_col_order by simp
  have nonneg: "\<forall>j\<in>set (col_order (k a)). 0 \<le> j" by (simp add: set_col_order)
  have ok: "\<forall>j\<in>set (col_order (k a)). j < int (length (live_buffer i st)) \<and>
              (\<exists>v. col_value a i (prev_buffer i st) j = Inr v)"
    using cv inv(1) k by (auto simp: set_col_order)
  have cols: "col_steps a i (col_order (k a)) st = Inr (set_live i st ?live)"
    using col_steps_char[OF nonneg, of a i st] ok by simp
  have len: "length ?live = nat (k a)" using inv(1) by simp
  have q: "nth_py (QT_first a) i = Inr (?w 0)"
    using i qf by (simp add: nth_py_nonneg)
  have upd: "set_py ?live 0 (?w 0) = Inr (?live[0 := ?w 0])"
    using k len by (simp add: set_py_nonneg del: upt_Suc)
  have row: "row_buffers a i st = Inr (set_live i st (?live[0 := ?w 0]))"
    unfolding row_buffers_def cols rbind.simps seed_first_eq q live_buffer_set_live upd
      set_live_set_live ..
  have "?live[0 := ?w 0] = direct_QT a i"
  proof (rule nth_equalityI)
    show "length (?live[0 := ?w 0]) = length (direct_QT a i)"
      using len by (simp add: length_direct_QT del: upt_Suc)
  next
    fix t assume "t < length (?live[0 := ?w 0])"
    then have t: "t < nat (k a)" using len by (simp del: upt_Suc)
    show "?live[0 := ?w 0] ! t = direct_QT a i ! t"
    proof (cases t)
      case 0
      with t len show ?thesis by (simp add: nth_direct_QT del: upt_Suc)
    next
      case (Suc t')
      then have mem: "int t \<in> set (col_order (k a))" using t by (auto simp: set_col_order)
      have "?live ! t = ?w t" using t inv(1) mem cv[OF mem] by (simp del: upt_Suc)
      with Suc t show ?thesis by (simp add: nth_direct_QT del: upt_Suc)
    qed
  qed
  with row show ?thesis
    by (simp add: live_buffer_set_live prev_buffer_set_live inv(2))
qed


lemma run_buffers_direct:
  assumes lo: "1 \<le> lo" "lo \<le> hi"
    and inv: "length (live_buffer lo st) = nat (k a)" "prev_buffer lo st = direct_QT a (lo - 1)"
    and lenB: "hi + m a - 1 < int (length (T_B a))"
    and m: "0 < m a" and k: "1 \<le> k a"
    and lenA: "int (length (T_A a)) = k a + m a - 1"
    and qf: "hi < int (length (QT_first a))"
      "\<forall>i. lo \<le> i \<and> i \<le> hi \<longrightarrow>
         QT_first a ! nat i = window_dot (T_B a) (T_A a) (nat (m a)) (nat i) 0"
  shows "\<exists>st'. run_buffers a [lo..hi] st = Inr st' \<and> live_buffer hi st' = direct_QT a hi \<and>
           prev_buffer hi st' = direct_QT a (hi - 1)"
  using lo(2) lenB qf
proof (induction hi rule: int_ge_induct)
  case base
  from row_buffers_direct[OF inv lo(1) base(1) m k lenA base(2)] base(3)
  obtain st' where "row_buffers a lo st = Inr st'" "live_buffer lo st' = direct_QT a lo"
    "prev_buffer lo st' = direct_QT a (lo - 1)" by auto
  then show ?case by simp
next
  case (step h)
  from step.IH step.prems obtain st1 where
    run: "run_buffers a [lo..h] st = Inr st1"
    and live: "live_buffer h st1 = direct_QT a h"
    and prev: "prev_buffer h st1 = direct_QT a (h - 1)"
    by auto
  have inv1: "length (live_buffer (h + 1) st1) = nat (k a)"
    "prev_buffer (h + 1) st1 = direct_QT a (h + 1 - 1)"
    using live prev by (simp_all add: live_buffer_Suc prev_buffer_Suc length_direct_QT)
  have h1: "1 \<le> h + 1" using lo(1) step.hyps by linarith
  have q: "QT_first a ! nat (h + 1) = window_dot (T_B a) (T_A a) (nat (m a)) (nat (h + 1)) 0"
    using step.prems(3) step.hyps by simp
  from row_buffers_direct[OF inv1 h1 step.prems(1) m k lenA step.prems(2) q]
  obtain st' where "row_buffers a (h + 1) st1 = Inr st'"
    "live_buffer (h + 1) st' = direct_QT a (h + 1)"
    "prev_buffer (h + 1) st' = direct_QT a (h + 1 - 1)" by auto
  moreover have "[lo..h + 1] = [lo..h] @ [h + 1]"
    using step.hyps by (simp add: upto_rec2)
  ultimately show ?case using run by (simp add: run_buffers_append)
qed




lemma ex_buffers_3:
  "buffers_after ex_args ex_QT 1 3 = Inr ([8, 4, 8, 20, 16], [4, 0, 4, 8, 4])"
  by (simp add: ex_args_def ex_QT_def engine_eval_defs)


lemma ex_profile_3:
  "profile_at calculate_squared_distance_profile ex_args ex_QT 1 3 = Inr [Fin 0, Fin 8, Fin 0, Fin 0, Fin 8]"
  by (simp add: ex_args_def ex_QT_def engine_eval_defs)

lemma ex_buffers_2_2:
  "buffers_after ex_args ex_QT 2 2 = Inr ([4, 0, 4, 8, 4], [4, 4, 0, 12, 8])"
  by (simp add: ex_args_def ex_QT_def engine_eval_defs)


lemma ex_profile_2_2:
  "profile_at calculate_squared_distance_profile ex_args ex_QT 2 2
     = Inr [Fin 0, Fin 0, Fin 8, Fin 0, Fin 0]"
  by (simp add: ex_args_def ex_QT_def engine_eval_defs)



section \<open>Schedules of the column loop\<close>

lemma run_ok_stores:
  "run_ok pend sch \<Longrightarrow> distinct (pend @ loads sch) \<Longrightarrow> set (stores sch) = set pend \<union> set (loads sch)"
proof (induction pend sch rule: run_ok.induct)
  case (1 pend)
  then show ?case by simp
next
  case (2 pend j es)
  then show ?case by auto
next
  case (3 pend j es)
  from 3 have "distinct (remove1 j pend @ loads es)" by (auto simp: distinct_remove1 dest: notin_set_remove1)
  with 3 have "set (stores es) = set (remove1 j pend) \<union> set (loads es)" by simp
  moreover from 3 have "distinct pend" by simp
  ultimately show ?case using 3 by (auto simp: set_remove1_eq)
qed

lemma live_map_update:
  assumes "0 \<le> j" "j < int (length live)" "V j = Inr v"
  shows "map (\<lambda>t. if int t \<in> set js then projr (V (int t)) else (live[nat j := v]) ! t) [0..<length live]
       = map (\<lambda>t. if int t \<in> set (j # js) then projr (V (int t)) else live ! t) [0..<length live]"
proof (rule map_cong[OF refl])
  fix t assume "t \<in> set [0..<length live]"
  then have t: "t < length live" by simp
  show "(if int t \<in> set js then projr (V (int t)) else (live[nat j := v]) ! t)
      = (if int t \<in> set (j # js) then projr (V (int t)) else live ! t)"
  proof (cases "int t = j")
    case True
    then have "nat j = t" by simp
    with t assms True show ?thesis by auto
  next
    case False
    then have "nat j \<noteq> t" using assms(1) by auto
    with False show ?thesis by simp
  qed
qed

lemma run_schedule_char:
  assumes "run_ok pend sch"
    and "\<forall>j\<in>set pend. \<exists>v. tmp j = Some v \<and> col_value a i (prev_buffer i st) j = Inr v"
    and "\<forall>j\<in>set pend \<union> set (loads sch). 0 \<le> j"
  shows "rbind (run_schedule a i sch (st, tmp)) (\<lambda>(st', tmp'). Inr st') =
     (if (\<forall>j\<in>set (loads sch). \<exists>v. col_value a i (prev_buffer i st) j = Inr v) \<and>
         (\<forall>j\<in>set (stores sch). j < int (length (live_buffer i st)))
      then Inr (set_live i st
             (map (\<lambda>t. if int t \<in> set (stores sch)
                        then projr (col_value a i (prev_buffer i st) (int t))
                        else live_buffer i st ! t)
                [0..<length (live_buffer i st)]))
      else Inl IndexError)"
  using assms
proof (induction sch arbitrary: pend st tmp)
  case Nil
  show ?case by (simp add: map_nth set_live_live_buffer)
next
  case (Cons e es)
  let ?prev = "prev_buffer i st" and ?live = "live_buffer i st"
  show ?case
  proof (cases e)
    case (Load j)
    show ?thesis
    proof (cases "col_value a i ?prev j")
      case (Inl err)
      then have "err = IndexError" by (rule col_value_error)
      with Inl Load show ?thesis by auto
    next
      case (Inr v)
      have ok: "run_ok (j # pend) es" using Cons.prems(1) Load by simp
      have tmp: "\<forall>j'\<in>set (j # pend). \<exists>v'. (tmp(j \<mapsto> v)) j' = Some v' \<and> col_value a i ?prev j' = Inr v'"
        using Cons.prems(2) Inr by auto
      have nn: "\<forall>j'\<in>set (j # pend) \<union> set (loads es). 0 \<le> j'"
        using Cons.prems(3) Load by auto
      have step: "exec_event a i (st, tmp) e = Inr (st, tmp(j \<mapsto> v))"
        using Load Inr by simp
      have "rbind (run_schedule a i (e # es) (st, tmp)) (\<lambda>(st', tmp'). Inr st')
          = rbind (run_schedule a i es (st, tmp(j \<mapsto> v))) (\<lambda>(st', tmp'). Inr st')"
        using step by simp
      also note Cons.IH[OF ok tmp nn]
      finally show ?thesis using Inr Load by auto
    qed
  next
    case (Store j)
    from Cons.prems(1) Store have jp: "j \<in> set pend" and ok: "run_ok (remove1 j pend) es"
      by simp_all
    from Cons.prems(2) jp obtain v where tv: "tmp j = Some v" and V: "col_value a i ?prev j = Inr v"
      by blast
    from Cons.prems(3) jp have j0: "0 \<le> j" by blast
    show ?thesis
    proof (cases "j < int (length ?live)")
      case False
      with tv j0 Store show ?thesis by (auto simp: set_py_nonneg)
    next
      case True
      let ?st1 = "set_live i st (?live[nat j := v])"
      have step: "exec_event a i (st, tmp) e = Inr (?st1, tmp)"
        using Store tv True j0 by (simp add: set_py_nonneg)
      have tmp: "\<forall>j'\<in>set (remove1 j pend). \<exists>v'. tmp j' = Some v' \<and>
                   col_value a i (prev_buffer i ?st1) j' = Inr v'"
        using Cons.prems(2) set_remove1_subset[of j pend] by (auto simp: prev_buffer_set_live)
      have nn: "\<forall>j'\<in>set (remove1 j pend) \<union> set (loads es). 0 \<le> j'"
        using Cons.prems(3) Store set_remove1_subset[of j pend] by auto
      have IH: "rbind (run_schedule a i es (?st1, tmp)) (\<lambda>(st', tmp'). Inr st') =
          (if (\<forall>j\<in>set (loads es). \<exists>v. col_value a i ?prev j = Inr v) \<and>
              (\<forall>j\<in>set (stores es). j < int (length ?live))
           then Inr (set_live i st
                  (map (\<lambda>t. if int t \<in> set (stores es) then projr (col_value a i ?prev (int t))
                        else (?live[nat j := v]) ! t) [0..<length ?live]))
           else Inl IndexError)"
        using Cons.IH[OF ok tmp nn]
        unfolding prev_buffer_set_live live_buffer_set_live set_live_set_live length_list_update .
      have "rbind (run_schedule a i (e # es) (st, tmp)) (\<lambda>(st', tmp'). Inr st')
          = rbind (run_schedule a i es (?st1, tmp)) (\<lambda>(st', tmp'). Inr st')"
        using step by simp
      also note IH
      finally show ?thesis
        unfolding live_map_update[of j ?live "col_value a i ?prev" v "stores es", OF j0 True V]
        using True Store by auto
    qed
  qed
qed

lemma run_parallel_valid:
  assumes "valid_schedule (k a) sch"
  shows "run_parallel a i sch st = col_steps a i [1..k a - 1] st"
proof -
  from assms have d: "distinct (loads sch)" and s: "set (loads sch) = {1..k a - 1}"
    and ok: "run_ok [] sch" by (simp_all add: valid_schedule_def)
  from run_ok_stores[OF ok] d have st: "set (stores sch) = {1..k a - 1}" using s by simp
  have nn: "\<forall>j\<in>set [] \<union> set (loads sch). 0 \<le> j" using s by simp
  have nn': "\<forall>j\<in>set [1..k a - 1]. 0 \<le> j" by simp
  have "run_parallel a i sch st =
     (if (\<forall>j\<in>{1..k a - 1}. \<exists>v. col_value a i (prev_buffer i st) j = Inr v) \<and>
         (\<forall>j\<in>{1..k a - 1}. j < int (length (live_buffer i st)))
      then Inr (set_live i st
             (map (\<lambda>t. if int t \<in> {1..k a - 1}
                        then projr (col_value a i (prev_buffer i st) (int t))
                        else live_buffer i st ! t)
                [0..<length (live_buffer i st)]))
      else Inl IndexError)"
    unfolding run_parallel_def using run_schedule_char[OF ok _ nn, of "\<lambda>j. None" a i st]
    unfolding s st by simp
  also have "\<dots> = col_steps a i [1..k a - 1] st"
    unfolding col_steps_char[OF nn', of a i st] set_upto by (rule if_cong) auto
  finally show ?thesis .
qed

lemma run_schedule_append:
  "run_schedule a i (xs @ ys) c = rbind (run_schedule a i xs c) (run_schedule a i ys)"
proof (induction xs arbitrary: c)
  case Nil
  show ?case by simp
next
  case (Cons x xs)
  show ?case by (cases "exec_event a i c x") (simp_all add: Cons.IH)
qed

lemma run_sequential:
  "rbind (run_schedule a i (sequential js) (st, tmp)) (\<lambda>(st', tmp'). Inr st') = col_steps a i js st"
proof (induction js arbitrary: st tmp)
  case Nil
  show ?case by (simp add: sequential_def)
next
  case (Cons j js)
  have seq: "sequential (j # js) = Load j # Store j # sequential js"
    by (simp add: sequential_def)
  show ?case
  proof (cases "col_value a i (prev_buffer i st) j")
    case (Inl e)
    then show ?thesis unfolding seq by (simp add: col_step_eq col_update_def)
  next
    case (Inr v)
    show ?thesis
    proof (cases "set_py (live_buffer i st) j v")
      case (Inl e)
      with Inr show ?thesis unfolding seq by (simp add: col_step_eq col_update_def)
    next
      case r: (Inr l)
      have "rbind (run_schedule a i (sequential (j # js)) (st, tmp)) (\<lambda>(st', tmp'). Inr st')
          = rbind (run_schedule a i (sequential js) (set_live i st l, tmp(j \<mapsto> v)))
              (\<lambda>(st', tmp'). Inr st')"
        unfolding seq using Inr r by simp
      also note Cons.IH[of "set_live i st l" "tmp(j \<mapsto> v)"]
      finally show ?thesis using Inr r by (simp add: col_step_eq col_update_def)
    qed
  qed
qed

lemma col_value_reads:
  "nth_py prev (j - 1) = nth_py prev' (j - 1) \<Longrightarrow> col_value a i prev j = col_value a i prev' j"
  by (simp add: col_value_def)

lemma col_step_writes:
  assumes "col_step a i st j = Inr st'" "0 \<le> j"
  shows "prev_buffer i st' = prev_buffer i st \<and>
         length (live_buffer i st') = length (live_buffer i st) \<and>
         (\<forall>t. int t \<noteq> j \<longrightarrow> live_buffer i st' ! t = live_buffer i st ! t)"
proof -
  from assms(1) obtain v l where "set_py (live_buffer i st) j v = Inr l" and st': "st' = set_live i st l"
    by (auto simp: col_step_eq col_update_def rbind_Inr_iff)
  with assms(2) have l: "l = (live_buffer i st)[nat j := v]"
    by (auto simp: set_py_nonneg split: if_splits)
  have "\<forall>t. int t \<noteq> j \<longrightarrow> l ! t = live_buffer i st ! t"
    unfolding l using assms(2) by auto
  then show ?thesis unfolding st' prev_buffer_set_live live_buffer_set_live using l by simp
qed

lemma ex_schedule_valid: "valid_schedule (k ex_args) ex_schedule"
  by (auto simp: valid_schedule_def ex_schedule_def ex_args_def)

lemma ex_parallel:
  "run_parallel ex_args 1 ex_schedule (ex_QT, ex_QT) = Inr ([4, 4, 0, 4, 8], [4, 0, 4, 8, 4])"
  by (simp add: run_parallel_def ex_schedule_def ex_args_def ex_QT_def col_value_def nth_py_def
        set_py_def py_index_def Let_def)

lemma ex_col_step:
  "col_step ex_args 1 (ex_QT, ex_QT) 2 = Inr ([4, 0, 0, 8, 4], [4, 0, 4, 8, 4])"
  by (simp add: ex_args_def ex_QT_def col_update_def col_value_def nth_py_def
        set_py_def py_index_def Let_def)

section \<open>The store model simulates the state-passing model\<close>

lemma sim_bind:
  assumes "sim h (c H) pc"
    and "\<And>od ev x. pc = Inr ((od, ev), x) \<Longrightarrow> sim h (f x (h @ [od, ev])) (pf ((od, ev), x))"
  shows "sim h (sbind c f H) (rbind pc pf)"
proof (cases pc)
  case (Inl err)
  with assms(1) show ?thesis by (auto simp: sim_def sbind_def split: prod.splits sum.splits)
next
  case (Inr y)
  obtain od ev x where y: "y = ((od, ev), x)" by (cases y) auto
  from assms(1) Inr y have c: "c H = (h @ [od, ev], Inr x)"
    by (auto simp: sim_def prod_eq_iff)
  from assms(2)[OF Inr[unfolded y] ] show ?thesis
    unfolding Inr y by (simp add: sbind_def c)
qed

lemma load_args_append:
  "ptrs_valid p QT h \<Longrightarrow> load_args (h @ xs) p = load_args h p"
  by (simp add: load_args_def ptrs_valid_def nth_append)


lemma rbind_assoc: "rbind (rbind x f) g = rbind x (\<lambda>v. rbind (f v) g)"
  by (cases x) simp_all

lemma heap_nth_odd: "(h @ [od, ev]) ! length h = od"
  by (simp add: nth_append)

lemma heap_nth_even: "(h @ [od, ev]) ! Suc (length h) = ev"
  by (simp add: nth_append)

lemma heap_nth_old: "a < length h \<Longrightarrow> (h @ xs) ! a = h ! a"
  by (simp add: nth_append)

lemma heap_upd_odd: "(h @ [od, ev])[length h := l] = h @ [l, ev]"
  by (simp add: list_update_append)

lemma heap_upd_even: "(h @ [od, ev])[Suc (length h) := l] = h @ [od, l]"
  by (simp add: list_update_append)

lemma col_update_st_even:
  assumes "ptrs_valid p QT h"
  shows "col_update_st p i (length h) (Suc (length h)) j (h @ [od, ev]) =
     (case col_update (load_args h p) i od ev j of
        Inl err \<Rightarrow> (h @ [od, ev], Inl err)
      | Inr l \<Rightarrow> (h @ [od, l], Inr ()))"
proof -
  have v: "p_T_A p < length h" "p_T_B p < length h" using assms by (simp_all add: ptrs_valid_def)
  show ?thesis
    unfolding col_update_st_def col_update_def col_value_def sbind_def rd_def wr_def
    by (simp add: heap_nth_odd heap_nth_even heap_nth_old[OF v(1)] heap_nth_old[OF v(2)]
          heap_upd_even load_args_def split: sum.splits)
qed

lemma col_update_st_odd:
  assumes "ptrs_valid p QT h"
  shows "col_update_st p i (Suc (length h)) (length h) j (h @ [od, ev]) =
     (case col_update (load_args h p) i ev od j of
        Inl err \<Rightarrow> (h @ [od, ev], Inl err)
      | Inr l \<Rightarrow> (h @ [l, ev], Inr ()))"
proof -
  have v: "p_T_A p < length h" "p_T_B p < length h" using assms by (simp_all add: ptrs_valid_def)
  show ?thesis
    unfolding col_update_st_def col_update_def col_value_def sbind_def rd_def wr_def
    by (simp add: heap_nth_odd heap_nth_even heap_nth_old[OF v(1)] heap_nth_old[OF v(2)]
          heap_upd_odd load_args_def split: sum.splits)
qed

lemma col_step_st_sim:
  assumes "ptrs_valid p QT h"
  shows "sim h (col_step_st p i (length h) (Suc (length h)) j (h @ [od, ev]))
           (rbind (col_step (load_args h p) i (od, ev) j) (\<lambda>st. Inr (st, ())))"
  unfolding col_step_st_def
  by (cases "i mod 2 = 0")
     (auto simp: sim_def col_update_st_even[OF assms] col_update_st_odd[OF assms] split: sum.splits)

lemma sreturn_sim: "sim h (sreturn x (h @ [od, ev])) (Inr ((od, ev), x))"
  by (simp add: sim_def sreturn_def)

lemma slift_sim: "sim h (slift r (h @ [od, ev])) (rbind r (\<lambda>x. Inr ((od, ev), x)))"
  by (cases r) (simp_all add: sim_def slift_def)

lemma col_steps_st_sim:
  assumes "ptrs_valid p QT h"
  shows "sim h (col_steps_st p i (length h) (Suc (length h)) js (h @ [od, ev]))
           (rbind (col_steps (load_args h p) i js (od, ev)) (\<lambda>st. Inr (st, ())))"
proof (induction js arbitrary: od ev)
  case Nil
  show ?case by (simp add: sreturn_sim)
next
  case (Cons j js)
  have "sim h (sbind (col_step_st p i (length h) (Suc (length h)) j)
                (\<lambda>_. col_steps_st p i (length h) (Suc (length h)) js) (h @ [od, ev]))
          (rbind (rbind (col_step (load_args h p) i (od, ev) j) (\<lambda>st. Inr (st, ())))
             (\<lambda>(st, _). rbind (col_steps (load_args h p) i js st) (\<lambda>st. Inr (st, ()))))"
    by (rule sim_bind, rule col_step_st_sim[OF assms]) (simp add: Cons.IH)
  then show ?case by (simp add: rbind_assoc)
qed

lemma seed_first_st_sim:
  assumes "ptrs_valid p QT h"
  shows "sim h (seed_first_st p i (length h) (Suc (length h)) (h @ [od, ev]))
           (rbind (seed_first (load_args h p) i (od, ev)) (\<lambda>st. Inr (st, ())))"
proof -
  have v: "p_QT_first p < length h" using assms by (simp add: ptrs_valid_def)
  show ?thesis
    unfolding seed_first_st_def sbind_def rd_def wr_def sim_def
    by (cases "i mod 2 = 0")
       (auto simp: heap_nth_odd heap_nth_even heap_nth_old[OF v] heap_upd_odd heap_upd_even
          load_args_def split: sum.splits)
qed

lemma row_profile_st_sim:
  assumes "ptrs_valid p QT h"
  shows "sim h (row_profile_st kern p i (length h) (Suc (length h)) (h @ [od, ev]))
           (rbind (row_profile kern (load_args h p) i (od, ev)) (\<lambda>D. Inr ((od, ev), D)))"
proof -
  have v: "p_mu_Q p < length h" "p_sigma_Q p < length h" "p_M_T p < length h"
    "p_Sigma_T p < length h" using assms by (simp_all add: ptrs_valid_def)
  show ?thesis
    unfolding row_profile_st_def row_profile_def sbind_def rd_def sim_def
    by (cases "i mod 2 = 0")
       (auto simp: heap_nth_odd heap_nth_even heap_nth_old[OF v(1)] heap_nth_old[OF v(2)]
          heap_nth_old[OF v(3)] heap_nth_old[OF v(4)] load_args_def rbind_Inl_iff rbind_Inr_iff
          split: sum.splits)
qed

lemma row_step_chain:
  "row_step kern a i st =
     rbind (rbind (col_steps a i (col_order (k a)) st) (\<lambda>st. Inr (st, ()))) (\<lambda>(st1, _).
     rbind (rbind (seed_first a i st1) (\<lambda>st. Inr (st, ()))) (\<lambda>(st2, _).
     rbind (rbind (row_profile kern a i st2) (\<lambda>D. Inr (st2, D))) (\<lambda>(st3, D0).
     rbind (extract_row (ignore_trivial a) (excl_zone a) i D0) (\<lambda>r. Inr (st3, r)))))"
  by (simp add: row_step_def row_buffers_def rbind_assoc)

lemma row_step_st_sim:
  assumes "ptrs_valid p QT h"
  shows "sim h (row_step_st kern p i (length h) (Suc (length h)) (h @ [od, ev]))
           (row_step kern (load_args h p) i (od, ev))"
proof -
  have a: "s_k p = k (load_args h p)" "s_ignore_trivial p = ignore_trivial (load_args h p)"
    "s_excl_zone p = excl_zone (load_args h p)" by (simp_all add: load_args_def)
  show ?thesis
    unfolding row_step_st_def row_step_chain a
    apply (rule sim_bind, rule col_steps_st_sim[OF assms])
    apply (simp only: prod.case)
    apply (rule sim_bind, rule seed_first_st_sim[OF assms])
    apply (simp only: prod.case)
    apply (rule sim_bind, rule row_profile_st_sim[OF assms])
    apply (simp only: prod.case)
    apply (rule slift_sim)
    done
qed

lemma rows_loop_st_sim:
  assumes "ptrs_valid p QT h"
  shows "sim h (rows_loop_st kern p (length h) (Suc (length h)) is (h @ [od, ev]))
           (rows_loop kern (load_args h p) is (od, ev))"
proof (induction "is" arbitrary: od ev)
  case Nil
  show ?case by (simp add: sreturn_sim)
next
  case (Cons i "is")
  show ?case
    unfolding rows_loop_st.simps rows_loop.simps
    apply (rule sim_bind, rule row_step_st_sim[OF assms])
    apply (simp only: prod.case)
    apply (rule sim_bind, rule Cons.IH)
    apply (simp only: prod.case)
    apply (rule sreturn_sim)
    done
qed

lemma u_mstump_st_refines:
  assumes "ptrs_valid p QT h"
  shows "\<exists>od ev. fst (u_mstump_st kern p QT range_stop range_start h) = h @ [od, ev] \<and>
           snd (u_mstump_st kern p QT range_stop range_start h)
             = u_mstump kern (load_args h p) (h ! QT) range_stop range_start"
proof -
  let ?q = "h ! QT"
  have q: "QT < length h" using assms by (simp add: ptrs_valid_def)
  have c1: "array_copy QT h = (h @ [?q], Inr (length h))" by (simp add: array_copy_def)
  have c2: "array_copy QT (h @ [?q]) = (h @ [?q, ?q], Inr (Suc (length h)))"
    by (simp add: array_copy_def heap_nth_old[OF q])
  show ?thesis
  proof (cases "range_stop - range_start < 0")
    case True
    then show ?thesis
      by (simp add: u_mstump_st_def sbind_def c1 c2 slift_def u_mstump_def u_mstump_run_def)
  next
    case False
    from rows_loop_st_sim[OF assms, of kern "[range_start..range_stop - 1]" ?q ?q]
    obtain od ev where
      f: "fst (rows_loop_st kern p (length h) (Suc (length h)) [range_start..range_stop - 1]
              (h @ [?q, ?q])) = h @ [od, ev]"
      and s: "case rows_loop kern (load_args h p) [range_start..range_stop - 1] (?q, ?q) of
                Inl err \<Rightarrow> snd (rows_loop_st kern p (length h) (Suc (length h))
                             [range_start..range_stop - 1] (h @ [?q, ?q])) = Inl err
              | Inr (st, x) \<Rightarrow> st = (od, ev) \<and>
                  snd (rows_loop_st kern p (length h) (Suc (length h))
                         [range_start..range_stop - 1] (h @ [?q, ?q])) = Inr x"
      unfolding sim_def by blast
    show ?thesis
    proof (cases "rows_loop kern (load_args h p) [range_start..range_stop - 1] (?q, ?q)")
      case (Inl err)
      with s f False show ?thesis
        by (cases "rows_loop_st kern p (length h) (Suc (length h))
                     [range_start..range_stop - 1] (h @ [?q, ?q])")
           (simp add: u_mstump_st_def sbind_def c1 c2 slift_def u_mstump_def u_mstump_run_def)
    next
      case (Inr y)
      with s f False show ?thesis
        by (cases "rows_loop_st kern p (length h) (Suc (length h))
                     [range_start..range_stop - 1] (h @ [?q, ?q])"; cases y)
           (simp add: u_mstump_st_def sbind_def c1 c2 slift_def sreturn_def
              u_mstump_def u_mstump_run_def)
    qed
  qed
qed

lemmas store_eval_defs =
  u_mstump_st_def sbind_def array_copy_def slift_def sreturn_def rd_def wr_def
  row_step_st_def col_step_st_def col_update_st_def seed_first_st_def row_profile_st_def

lemma short_store_run:
  "u_mstump_st calculate_squared_distance_profile short_ptrs 5 2 1 short_heap =
     (short_heap @ [ [0, 4], [4, 0] ], Inr ([PInf], [(0, - 1, - 1)]))"
  by (simp add: short_heap_def short_ptrs_def store_eval_defs engine_eval_defs)

lemma short_ptrs_valid: "ptrs_valid short_ptrs 5 short_heap"
  by (simp add: ptrs_valid_def short_ptrs_def short_heap_def)

lemma short_load_args: "load_args short_heap short_ptrs = short_args"
  by (simp add: load_args_def short_heap_def short_ptrs_def short_args_def)

section \<open>Runs of the driver\<close>

lemmas driver_eval_defs =
  mstump_def mstump_compute_def spec_collab_def spec_check_dtype_def spec_compute_mean_std_def
  spec_get_QT_def spec_get_first_stump_profile_def np_empty_def window_def mean_def std_def
  window_dot_def upt_conv_Cons

lemma ceil_quarter: "\<lceil>real_of_int mm / 4\<rceil> = - ((- mm) div 4)"
  using ceiling_divide_eq_div[of mm 4] by simp

lemma ex_mean_std: "spec_compute_mean_std ex_array 2 = Inr ([1, 1, 1, 3, 3], [1, 1, 1, 1, 1])"
  by (simp add: ex_array_def spec_compute_mean_std_def window_def mean_def std_def upt_conv_Cons)

lemma ex_get_QT: "spec_get_QT 0 ex_array ex_array 2 = Inr ([4, 0, 4, 8, 4], [4, 0, 4, 8, 4])"
  by (simp add: ex_array_def spec_get_QT_def window_dot_def upt_conv_Cons)

lemma ex_first_row:
  "spec_get_first_stump_profile 0 ex_array ex_array 2 1 [1, 1, 1, 3, 3] [1, 1, 1, 1, 1] True
     = Inr (Fin 0, 2, - 1, 2)"
  by (simp add: ex_array_def spec_get_first_stump_profile_def window_dot_def window_def mean_def
        std_def upt_conv_Cons engine_eval_defs)

lemma ex_driver_args:
  "\<lparr>T_A = vals ex_array, T_B = vals ex_array, m = 2, excl_zone = 1, M_T = [1, 1, 1, 3, 3],
    Sigma_T = [1, 1, 1, 1, 1], QT_first = [4, 0, 4, 8, 4], mu_Q = [1, 1, 1, 3, 3],
    sigma_Q = [1, 1, 1, 1, 1], k = 5, ignore_trivial = True\<rparr> = ex_args"
  by (simp add: ex_args_def ex_array_def)

lemma ex_driver_intended:
  "mstump spec_collab (intended_namespace spec_collab) ex_array 2 None True =
     Inr [(Fin 0, 2, - 1, 2), (Fin 0, 4, - 1, 4), (Fin 0, 0, 0, 4), (Fin 0, 0, 0, - 1),
          (Fin 0, 1, 1, - 1)]"
proof -
  have c: "check_dtype spec_collab ex_array = Inr ()"
    by (simp add: spec_collab_def spec_check_dtype_def ex_array_def)
  have s: "compute_mean_std spec_collab ex_array 2 = Inr ([1, 1, 1, 3, 3], [1, 1, 1, 1, 1])"
    by (simp add: spec_collab_def ex_mean_std)
  have q: "get_QT spec_collab 0 ex_array ex_array 2 = Inr ([4, 0, 4, 8, 4], [4, 0, 4, 8, 4])"
    by (simp add: spec_collab_def ex_get_QT)
  have f: "get_first_stump_profile spec_collab 0 ex_array ex_array 2 1 [1, 1, 1, 3, 3]
             [1, 1, 1, 1, 1] True = Inr (Fin 0, 2, - 1, 2)"
    by (simp add: spec_collab_def ex_first_row)
  have l: "length (vals ex_array) = 6" by (simp add: ex_array_def)
  have ne: "vals ex_array \<noteq> []" by (simp add: ex_array_def)
  have z: "\<lceil>(1::real) / 2\<rceil> = 1" by (simp add: ceiling_eq_iff)
  have e: "u_mstump (distance_kernel spec_collab) ex_args [4, 0, 4, 8, 4] 5 1 =
     Inr ([Fin 0, Fin 0, Fin 0, Fin 0], [(4, - 1, 4), (0, 0, 4), (0, 0, - 1), (1, 1, - 1)])"
    using ex_run by (simp add: spec_collab_def ex_QT_def)
  show ?thesis
    by (simp add: mstump_def mstump_compute_def c s q l ne z f np_empty_def
          intended_namespace_def ex_driver_args e)
qed


lemma one_mean_std:
  "spec_compute_mean_std ex_array 1 = Inr ([0, 2, 0, 2, 4, 2], [0, 0, 0, 0, 0, 0])"
  by (simp add: ex_array_def spec_compute_mean_std_def window_def mean_def std_def upt_conv_Cons)

lemma one_get_QT:
  "spec_get_QT 0 ex_array ex_array 1 = Inr ([0, 0, 0, 0, 0, 0], [0, 0, 0, 0, 0, 0])"
  by (simp add: ex_array_def spec_get_QT_def window_dot_def upt_conv_Cons)

lemma one_first_row:
  "spec_get_first_stump_profile 0 ex_array ex_array 1 1 [0, 2, 0, 2, 4, 2] [0, 0, 0, 0, 0, 0] True
     = Inr (PInf, 0, - 1, - 1)"
  by (simp add: ex_array_def spec_get_first_stump_profile_def window_dot_def window_def mean_def
        std_def upt_conv_Cons engine_eval_defs)

lemma one_engine:
  "u_mstump calculate_squared_distance_profile
     \<lparr>T_A = [0, 2, 0, 2, 4, 2], T_B = [0, 2, 0, 2, 4, 2], m = 1, excl_zone = 1,
      M_T = [0, 2, 0, 2, 4, 2], Sigma_T = [0, 0, 0, 0, 0, 0], QT_first = [0, 0, 0, 0, 0, 0],
      mu_Q = [0, 2, 0, 2, 4, 2], sigma_Q = [0, 0, 0, 0, 0, 0], k = 6, ignore_trivial = True\<rparr>
     [0, 0, 0, 0, 0, 0] 6 1 =
   Inr ([PInf, PInf, PInf, PInf, PInf],
        [(0, - 1, - 1), (0, 0, - 1), (0, 0, - 1), (0, 0, - 1), (0, 0, - 1)])"
  by (simp add: engine_eval_defs)

lemma one_driver_intended:
  "mstump spec_collab (intended_namespace spec_collab) ex_array 1 None True =
     Inr [(PInf, 0, - 1, - 1), (PInf, 0, - 1, - 1), (PInf, 0, 0, - 1), (PInf, 0, 0, - 1),
          (PInf, 0, 0, - 1), (PInf, 0, 0, - 1)]"
proof -
  have c: "check_dtype spec_collab ex_array = Inr ()"
    by (simp add: spec_collab_def spec_check_dtype_def ex_array_def)
  have s: "compute_mean_std spec_collab ex_array 1 = Inr ([0, 2, 0, 2, 4, 2], [0, 0, 0, 0, 0, 0])"
    by (simp add: spec_collab_def one_mean_std)
  have q: "get_QT spec_collab 0 ex_array ex_array 1 = Inr ([0, 0, 0, 0, 0, 0], [0, 0, 0, 0, 0, 0])"
    by (simp add: spec_collab_def one_get_QT)
  have f: "get_first_stump_profile spec_collab 0 ex_array ex_array 1 1 [0, 2, 0, 2, 4, 2]
             [0, 0, 0, 0, 0, 0] True = Inr (PInf, 0, - 1, - 1)"
    by (simp add: spec_collab_def one_first_row)
  have l: "length (vals ex_array) = 6" "vals ex_array = [0, 2, 0, 2, 4, 2]"
    by (simp_all add: ex_array_def)
  have z: "\<lceil>(1::real) / 4\<rceil> = 1" by (simp add: ceiling_eq_iff)
  have k: "distance_kernel spec_collab = calculate_squared_distance_profile"
    by (simp add: spec_collab_def)
  show ?thesis
    by (simp add: mstump_def mstump_compute_def c s q l z f np_empty_def
          intended_namespace_def k one_engine)
qed

lemma one_driver_module:
  "mstump spec_collab (module_namespace spec_collab) ex_array 1 None True = Inl NameError"
  by (simp add: ex_array_def module_namespace_def driver_eval_defs engine_eval_defs)

lemma long_driver_module:
  "mstump spec_collab (module_namespace spec_collab) ex_array 7 None True = Inl ValueError"
  by (simp add: ex_array_def module_namespace_def driver_eval_defs engine_eval_defs)

lemma full_driver_intended:
  "mstump spec_collab (intended_namespace spec_collab) ex_array 6 None True
     = Inr [(PInf, 0, - 1, - 1)]"
  by (simp add: ex_array_def intended_namespace_def driver_eval_defs engine_eval_defs)

lemma ex_driver_module:
  "mstump spec_collab (module_namespace spec_collab) ex_array 2 None True = Inl NameError"
  by (simp add: ex_array_def module_namespace_def driver_eval_defs engine_eval_defs)

lemma obj_driver:
  "mstump spec_collab (module_namespace spec_collab) obj_array 2 None True = Inl InvalidInputError"
  "mstump spec_collab (module_namespace spec_collab) ex_array 2 (Some obj_array) False
     = Inl InvalidInputError"
  by (simp_all add: mstump_def spec_collab_def spec_check_dtype_def obj_array_def ex_array_def)

lemma mstump_module_never_returns:
  "mstump c (module_namespace c) TA mm TB ign \<noteq> Inr out"
  by (auto simp: mstump_def mstump_compute_def Let_def rbind_Inr_iff module_namespace_def
        split: prod.splits option.splits)

lemma mstump_intended_length:
  assumes "mstump c (intended_namespace c) TA mm TB ign = Inr out"
  shows "int (length out) = int (length (vals (case TB of None \<Rightarrow> TA | Some b \<Rightarrow> b))) - mm + 1"
  using assms
  by (auto simp: mstump_def mstump_compute_def Let_def rbind_Inr_iff
        split: prod.splits option.splits if_splits)

section \<open>The engine returns on well-formed arguments\<close>

lemma buffer_cases:
  "prev_buffer i st = fst st \<and> live_buffer i st = snd st \<or>
   prev_buffer i st = snd st \<and> live_buffer i st = fst st"
  by (cases st) simp

lemma set_live_lengths:
  assumes "length (fst st) = n" "length (snd st) = n" "length l = n"
  shows "length (fst (set_live i st l)) = n \<and> length (snd (set_live i st l)) = n"
  using assms by (cases st) simp

lemma col_value_ok:
  assumes i: "1 \<le> i" "i + m a - 1 < int (length (T_B a))"
    and m: "0 < m a"
    and lenA: "int (length (T_A a)) = k a + m a - 1"
    and prev: "length prev = nat (k a)"
    and j: "1 \<le> j" "j \<le> k a - 1"
  shows "\<exists>v. col_value a i prev j = Inr v"
proof -
  have "nth_py prev (j - 1) = Inr (prev ! nat (j - 1))"
    using j prev by (simp add: nth_py_nonneg)
  moreover have "nth_py (T_B a) (i - 1) = Inr (T_B a ! nat (i - 1))"
    using i m by (simp add: nth_py_nonneg)
  moreover have "nth_py (T_A a) (j - 1) = Inr (T_A a ! nat (j - 1))"
    using j m lenA by (simp add: nth_py_nonneg)
  moreover have "nth_py (T_B a) (i + m a - 1) = Inr (T_B a ! nat (i + m a - 1))"
    using i m by (simp add: nth_py_nonneg)
  moreover have "nth_py (T_A a) (j + m a - 1) = Inr (T_A a ! nat (j + m a - 1))"
    using j m lenA by (simp add: nth_py_nonneg)
  ultimately show ?thesis by (simp add: col_value_def)
qed

lemma row_buffers_ok:
  assumes len: "length (fst st) = nat (k a)" "length (snd st) = nat (k a)"
    and i: "1 \<le> i" "i + m a - 1 < int (length (T_B a))"
    and m: "0 < m a" and k: "1 \<le> k a"
    and lenA: "int (length (T_A a)) = k a + m a - 1"
    and qf: "i < int (length (QT_first a))"
  shows "\<exists>st'. row_buffers a i st = Inr st' \<and>
           length (fst st') = nat (k a) \<and> length (snd st') = nat (k a)"
proof -
  let ?live = "map (\<lambda>t. if int t \<in> set (col_order (k a))
                        then projr (col_value a i (prev_buffer i st) (int t))
                        else live_buffer i st ! t) [0..<length (live_buffer i st)]"
  have pl: "length (prev_buffer i st) = nat (k a)" "length (live_buffer i st) = nat (k a)"
    using len buffer_cases[of i st] by auto
  have nonneg: "\<forall>j\<in>set (col_order (k a)). 0 \<le> j" by (simp add: set_col_order)
  have ok: "\<forall>j\<in>set (col_order (k a)). j < int (length (live_buffer i st)) \<and>
              (\<exists>v. col_value a i (prev_buffer i st) j = Inr v)"
    using col_value_ok[OF i m lenA pl(1)] pl(2) k by (auto simp: set_col_order)
  have cols: "col_steps a i (col_order (k a)) st = Inr (set_live i st ?live)"
    using col_steps_char[OF nonneg, of a i st] ok by simp
  have ll: "length ?live = nat (k a)" using pl(2) by simp
  have q: "nth_py (QT_first a) i = Inr (QT_first a ! nat i)"
    using i qf by (simp add: nth_py_nonneg)
  have upd: "set_py ?live 0 (QT_first a ! nat i) = Inr (?live[0 := QT_first a ! nat i])"
    using k ll by (simp add: set_py_nonneg del: upt_Suc)
  have row: "row_buffers a i st = Inr (set_live i st (?live[0 := QT_first a ! nat i]))"
    unfolding row_buffers_def cols rbind.simps seed_first_eq q live_buffer_set_live upd
      set_live_set_live ..
  have "length (?live[0 := QT_first a ! nat i]) = nat (k a)" using ll by (simp del: upt_Suc)
  from set_live_lengths[OF len this] row show ?thesis by blast
qed

lemma rows_loop_ok:
  assumes len: "length (fst st) = nat (k a)" "length (snd st) = nat (k a)"
    and rows: "\<forall>i\<in>set is. 1 \<le> i \<and> i + m a - 1 < int (length (T_B a)) \<and>
                 i < int (length (QT_first a)) \<and> i < int (length (mu_Q a)) \<and>
                 i < int (length (sigma_Q a))"
    and m: "0 < m a" and k: "1 \<le> k a"
    and lenA: "int (length (T_A a)) = k a + m a - 1"
    and kern: "\<And>QT' mu sg. length QT' = nat (k a) \<Longrightarrow>
                 \<exists>D. kern (m a) QT' mu sg (M_T a) (Sigma_T a) = Inr D \<and> D \<noteq> []"
  shows "\<exists>st' rs. rows_loop kern a is st = Inr (st', rs)"
  using len rows
proof (induction "is" arbitrary: st)
  case Nil
  show ?case by simp
next
  case (Cons i "is")
  from Cons.prems(3) have i: "1 \<le> i" "i + m a - 1 < int (length (T_B a))"
    "i < int (length (QT_first a))" "i < int (length (mu_Q a))" "i < int (length (sigma_Q a))"
    by simp_all
  from row_buffers_ok[OF Cons.prems(1,2) i(1,2) m k lenA i(3)] obtain st1 where
    b: "row_buffers a i st = Inr st1"
    and l1: "length (fst st1) = nat (k a)" "length (snd st1) = nat (k a)" by blast
  have "length (live_buffer i st1) = nat (k a)" using l1 buffer_cases[of i st1] by auto
  from kern[OF this] obtain D where
    D: "kern (m a) (live_buffer i st1) (mu_Q a ! nat i) (sigma_Q a ! nat i) (M_T a) (Sigma_T a) = Inr D"
    and ne: "D \<noteq> []" by blast
  have p: "row_profile kern a i st1 = Inr D"
    using i D by (simp add: row_profile_def nth_py_nonneg)
  have "0 \<le> i" using i(1) by simp
  from extract_row_total[OF ne this] obtain r where
    e: "extract_row (ignore_trivial a) (excl_zone a) i D = Inr r" by blast
  have step: "row_step kern a i st = Inr (st1, r)"
    by (simp add: row_step_def b p e)
  from Cons.prems(3) have "\<forall>i\<in>set is. 1 \<le> i \<and> i + m a - 1 < int (length (T_B a)) \<and>
                 i < int (length (QT_first a)) \<and> i < int (length (mu_Q a)) \<and>
                 i < int (length (sigma_Q a))" by simp
  from Cons.IH[OF l1 this] obtain st' rs where "rows_loop kern a is st1 = Inr (st', rs)"
    by blast
  with step show ?case by simp
qed

lemma u_mstump_total:
  assumes rs: "1 \<le> range_start" "range_start \<le> range_stop"
    and m: "0 < m a" and k: "1 \<le> k a"
    and lenA: "int (length (T_A a)) = k a + m a - 1"
    and lenB: "range_stop + m a - 1 \<le> int (length (T_B a))"
    and lenQ: "length QT = nat (k a)"
    and lens: "range_stop \<le> int (length (QT_first a))" "range_stop \<le> int (length (mu_Q a))"
      "range_stop \<le> int (length (sigma_Q a))"
    and kern: "\<And>QT' mu sg. length QT' = nat (k a) \<Longrightarrow>
                 \<exists>D. kern (m a) QT' mu sg (M_T a) (Sigma_T a) = Inr D \<and> D \<noteq> []"
  shows "\<exists>profile indices. u_mstump kern a QT range_stop range_start = Inr (profile, indices) \<and>
           length profile = nat (range_stop - range_start)"
proof -
  have rows: "\<forall>i\<in>set [range_start..range_stop - 1]. 1 \<le> i \<and>
      i + m a - 1 < int (length (T_B a)) \<and> i < int (length (QT_first a)) \<and>
      i < int (length (mu_Q a)) \<and> i < int (length (sigma_Q a))"
    using rs lenB lens by auto
  have len: "length (fst (QT, QT)) = nat (k a)" "length (snd (QT, QT)) = nat (k a)"
    using lenQ by simp_all
  from rows_loop_ok[where kern = kern, OF len rows m k lenA kern] obtain st' rws where
    "rows_loop kern a [range_start..range_stop - 1] (QT, QT) = Inr (st', rws)" by blast
  then have run: "u_mstump kern a QT range_stop range_start = Inr (map fst rws, map snd rws)"
    using rs(2) by (simp add: u_mstump_def u_mstump_run_def)
  from u_mstump_rows(1)[OF run] run show ?thesis by blast
qed

lemma spec_kernel_total:
  "length QT' = nat kk \<Longrightarrow> 1 \<le> kk \<Longrightarrow>
     \<exists>D. calculate_squared_distance_profile mm QT' mu sg M S = Inr D \<and> D \<noteq> []"
  by (auto simp: calculate_squared_distance_profile_def)

section \<open>The recurrence in binary64\<close>

subsection \<open>Rounding\<close>

text \<open>Integers below \<open>2^53\<close> in magnitude are binary64 numbers.\<close>

lemma round_half_even_of_int: "round_half_even (of_int z) = z"
  by (simp add: round_half_even_def)

lemma fl_zero: "fl 0 = 0"
  by (simp add: fl_def)


lemma fl_of_int:
  assumes "\<bar>n\<bar> < 2 ^ 53"
  shows "fl (of_int n) = of_int n"
proof (cases "n = 0")
  case True
  then show ?thesis by (simp add: fl_def)
next
  case False
  define x :: real where "x = of_int n"
  define E where "E = \<lfloor>log 2 \<bar>x\<bar>\<rfloor>"
  have x1: "1 \<le> \<bar>x\<bar>" using False by (simp add: x_def)
  have x2: "\<bar>x\<bar> < 2 ^ 53" using assms unfolding x_def
    by (metis of_int_abs of_int_less_numeral_power_cancel_iff)
  have pos: "0 < \<bar>x\<bar>" using x1 by linarith
  have E0: "0 \<le> E" unfolding E_def using x1 by simp
  have "log 2 \<bar>x\<bar> < 53"
    using x2 pos by (simp add: log_less_iff)
  then have E53: "E < 53" unfolding E_def by linarith
  have ue: "ulp_exponent x = E - 52" using E0 by (simp add: ulp_exponent_def E_def)
  define s where "s = nat (52 - E)"
  have s: "(of_int (E - 52) :: real) = - real s" using E53 by (simp add: s_def)
  have p: "(2::real) powr of_int (E - 52) = 1 / 2 ^ s"
    unfolding s by (simp add: powr_minus powr_realpow divide_simps)
  have "x / 2 powr of_int (ulp_exponent x) = of_int (n * 2 ^ s)"
    unfolding ue p by (simp add: x_def)
  then have r: "round_half_even (x / 2 powr of_int (ulp_exponent x)) = n * 2 ^ s"
    by (simp only: round_half_even_of_int)
  have "x \<noteq> 0" using False by (simp add: x_def)
  then have "fl x = of_int (round_half_even (x / 2 powr of_int (ulp_exponent x)))
                 * 2 powr of_int (ulp_exponent x)"
    by (simp add: fl_def)
  also have "\<dots> = of_int (n * 2 ^ s) * 2 powr of_int (ulp_exponent x)"
    by (simp only: r)
  also have "\<dots> = of_int (n * 2 ^ s) * (1 / 2 ^ s)"
    by (simp only: ue p)
  also have "\<dots> = x" by (simp add: x_def)
  finally show ?thesis unfolding x_def .
qed


lemma fl_neg_numeral: "(numeral w :: int) < 2 ^ 53 \<Longrightarrow> fl (- numeral w) = - numeral w"
  using fl_of_int[of "- numeral w"] by simp


subsection \<open>Updates that do not round\<close>

text \<open>
  When every operation of an update delivers its exact result, the update in binary64 is
  the update in the reals; a row whose updates are all of this kind, read from the exact
  dot products of the row before, ends with the exact dot products of the row.
\<close>

lemma f64_of_int: "\<bar>n\<bar> < 2 ^ 53 \<Longrightarrow> f64 (of_int n)"
proof -
  assume b: "\<bar>n\<bar> < 2 ^ 53"
  then have "\<bar>real_of_int n\<bar> < 2 ^ 53"
    by (metis of_int_abs of_int_less_numeral_power_cancel_iff)
  moreover have "(2::real) ^ 53 \<le> 2 ^ 1024" by (rule power_increasing) simp_all
  ultimately have "\<bar>real_of_int n\<bar> < 2 ^ 1024" by linarith
  with fl_of_int[OF b] show ?thesis by (simp add: f64_def)
qed


lemma f64_op_exact: "f64 v \<Longrightarrow> f64_op v = Inr v"
  by (simp add: f64_def f64_op_def)










subsection \<open>Integer-valued series\<close>





subsection \<open>Runs in binary64\<close>

lemma f64_op_zero: "f64_op 0 = Inr 0"
  by (simp add: f64_op_def fl_zero)

lemma f64_op_numeral: "(numeral w :: int) < 2 ^ 53 \<Longrightarrow> f64_op (numeral w) = Inr (numeral w)"
  using f64_of_int[of "numeral w"] by (simp add: f64_op_exact)

lemma f64_op_neg_numeral:
  "(numeral w :: int) < 2 ^ 53 \<Longrightarrow> f64_op (- numeral w) = Inr (- numeral w)"
  using f64_of_int[of "- numeral w"] by (simp add: f64_op_exact)

lemma f64_op_one: "f64_op 1 = Inr 1"
  using f64_of_int[of 1] by (simp add: f64_op_exact)

lemmas f64_eval_defs =
  buffers_after_f64_def profile_at_f64_def upto_rec1 row_buffers_f64_def col_order_def
  col_update_f64_def col_value_f64_def ieee_def product_def nth_py_def set_py_def py_index_def
  f64_op_zero f64_op_one f64_op_numeral f64_op_neg_numeral












text \<open>With the old product contracted into the subtraction the same update is exact.\<close>

lemma big_buffers_fma:
  "buffers_after_f64 (\<lambda>i j. Sub_add True False) big_args big_QT 1 1
     = Inr ([134217731, 5], [18014399046352904, 671088645])"
  by (simp add: big_args_def big_QT_def f64_eval_defs)






section \<open>The claims\<close>

text \<open>
  The statements about emitted rows are about the runs of the engine that return; by
  \<open>u_mstump_total\<close> every run on arguments of the driver's shapes, with a kernel that
  returns a non-empty profile, does.
\<close>




text \<open>
  Claim C5. For every row \<open>i = range_start + r\<close> the engine emits: the left index is
  below \<open>i\<close> unless it is \<open>-1\<close>, the right index is above \<open>i\<close> unless it is \<open>-1\<close>,
  and both are \<open>-1\<close> when \<open>ignore_trivial\<close> is false (AB-join).
\<close>

theorem left_right_consistency:
  assumes "u_mstump kern a QT range_stop range_start = Inr (profile, indices)"
    and "r < length indices"
    and "indices ! r = (I, IL, IR)"
  shows "(IL \<noteq> - 1 \<longrightarrow> IL < range_start + int r) \<and>
         (IR \<noteq> - 1 \<longrightarrow> range_start + int r < IR) \<and>
         (\<not> ignore_trivial a \<longrightarrow> IL = - 1 \<and> IR = - 1)"
proof -
  from u_mstump_rows(2)[OF assms(1)] assms(2) have r: "r < nat (range_stop - range_start)" by simp
  from u_mstump_rows(3)[OF assms(1) r] assms(3) obtain D0 where
    "extract_row (ignore_trivial a) (excl_zone a) (range_start + int r) D0 = Inr (profile ! r, I, IL, IR)"
    by auto
  note E = extract_row_Inr[OF this]
  from left_index_bound[OF E(3)] right_index_bound[OF E(4)] show ?thesis by blast
qed

text \<open>Row 1 of the self-join run and row 1 of the AB-join run.\<close>

theorem left_right_consistency_witness:
  "u_mstump calculate_squared_distance_profile ex_args ex_QT 5 1 =
     Inr ([Fin 0, Fin 0, Fin 0, Fin 0], [(4, - 1, 4), (0, 0, 4), (0, 0, - 1), (1, 1, - 1)]) \<and>
   (1::nat) < length [(4::int, - 1::int, 4::int), (0, 0, 4), (0, 0, - 1), (1, 1, - 1)] \<and>
   [(4::int, - 1::int, 4::int), (0, 0, 4), (0, 0, - 1), (1, 1, - 1)] ! 1 = (0, 0, 4) \<and>
   (0::int) \<noteq> - 1 \<and> (0::int) < 1 + int 1 \<and> (4::int) \<noteq> - 1 \<and> 1 + int 1 < (4::int) \<and>
   u_mstump calculate_squared_distance_profile ab_args ex_QT 5 1 =
     Inr ([Fin 0, Fin 0, Fin 0, Fin 0], [(1, - 1, - 1), (0, - 1, - 1), (0, - 1, - 1), (1, - 1, - 1)]) \<and>
   \<not> ignore_trivial ab_args"
  using left_right_consistency[OF ex_run, of 1 0 0 4]
    left_right_consistency[OF ab_run, of 1 0 "- 1" "- 1"] ex_run ab_run
  by (simp add: ab_args_def)

text \<open>
  Claim C8. For every emitted row, the best-match index \<open>I\<close> is the smallest index
  minimising the masked distance profile \<open>D\<close> of that row (every entry is at least
  \<open>D[I]\<close>, every entry before \<open>I\<close> is strictly larger), and the reported distance is
  \<open>sqrt(D[I])\<close>.
\<close>

theorem best_index_least_argmin:
  assumes "u_mstump kern a QT range_stop range_start = Inr (profile, indices)"
    and "r < length indices"
    and "indices ! r = (I, IL, IR)"
  shows "\<exists>D0. profile_at kern a QT range_start (range_start + int r) = Inr D0 \<and>
           (let D = masked (ignore_trivial a) (excl_zone a) (range_start + int r) D0
            in 0 \<le> I \<and> I < int (length D) \<and>
               (\<forall>j<length D. D ! nat I \<le> D ! j) \<and>
               (\<forall>j<nat I. D ! nat I < D ! j) \<and>
               profile ! r = dsqrt (D ! nat I))"
proof -
  from u_mstump_rows(2)[OF assms(1)] assms(2) have r: "r < nat (range_stop - range_start)" by simp
  from u_mstump_rows(3)[OF assms(1) r] assms(3) obtain D0 where
    P: "profile_at kern a QT range_start (range_start + int r) = Inr D0" and
    "extract_row (ignore_trivial a) (excl_zone a) (range_start + int r) D0 = Inr (profile ! r, I, IL, IR)"
    by auto
  note E = extract_row_Inr[OF this(2)]
  from np_argmin_Inr[OF E(1)] E(2) P show ?thesis unfolding Let_def by blast
qed

text \<open>Row 0 of the self-join run, whose best match is window 4.\<close>

theorem best_index_least_argmin_witness:
  "u_mstump calculate_squared_distance_profile ex_args ex_QT 5 1 =
     Inr ([Fin 0, Fin 0, Fin 0, Fin 0], [(4, - 1, 4), (0, 0, 4), (0, 0, - 1), (1, 1, - 1)]) \<and>
   (0::nat) < length [(4::int, - 1::int, 4::int), (0, 0, 4), (0, 0, - 1), (1, 1, - 1)] \<and>
   [(4::int, - 1::int, 4::int), (0, 0, 4), (0, 0, - 1), (1, 1, - 1)] ! 0 = (4, - 1, 4) \<and>
   (\<exists>D0. profile_at calculate_squared_distance_profile ex_args ex_QT 1 (1 + int 0) = Inr D0 \<and>
           (let D = masked (ignore_trivial ex_args) (excl_zone ex_args) (1 + int 0) D0
            in 0 \<le> (4::int) \<and> 4 < int (length D) \<and>
               (\<forall>j<length D. D ! nat 4 \<le> D ! j) \<and>
               (\<forall>j<nat 4. D ! nat 4 < D ! j) \<and>
               [Fin 0, Fin 0, Fin 0, Fin 0] ! 0 = dsqrt (D ! nat 4)))"
proof -
  have h2: "(0::nat) < length [(4::int, - 1::int, 4::int), (0, 0, 4), (0, 0, - 1), (1, 1, - 1)]"
    by simp
  have h3: "[(4::int, - 1::int, 4::int), (0, 0, 4), (0, 0, - 1), (1, 1, - 1)] ! 0 = (4, - 1, 4)"
    by simp
  from best_index_least_argmin[OF ex_run h2 h3] ex_run h2 h3 show ?thesis by blast
qed

text \<open>
  Claim C10. For a self-join row \<open>i\<close> whose exclusion zone covers all \<open>k\<close> reference
  windows (\<open>i \<le> zone\<close> and \<open>k \<le> i + zone + 1\<close>), every entry of the masked profile is
  +infinity, and the engine emits best index 0, which lies inside the zone, with distance
  +infinity and with left and right index \<open>-1\<close>.
\<close>

theorem fully_masked_row:
  assumes run: "u_mstump kern a QT range_stop range_start = Inr (profile, indices)"
    and r: "r < length indices"
    and i: "i = range_start + int r"
    and P: "profile_at kern a QT range_start i = Inr D0"
    and len: "int (length D0) = k a"
    and self: "ignore_trivial a"
    and zone: "0 \<le> i" "i \<le> excl_zone a" "k a \<le> i + excl_zone a + 1"
  shows "masked (ignore_trivial a) (excl_zone a) i D0 = replicate (length D0) PInf \<and>
         indices ! r = (0, - 1, - 1) \<and> profile ! r = PInf \<and>
         i - excl_zone a \<le> 0 \<and> 0 \<le> i + excl_zone a"
proof -
  from u_mstump_rows(2)[OF run] r have r': "r < nat (range_stop - range_start)" by simp
  obtain I IL IR where ix: "indices ! r = (I, IL, IR)" by (cases "indices ! r") auto
  from u_mstump_rows(3)[OF run r'] P ix self have
    E: "extract_row True (excl_zone a) i D0 = Inr (profile ! r, I, IL, IR)"
    unfolding i by auto
  have l: "int (length D0) \<le> i + excl_zone a + 1" using len zone(3) by simp
  from extract_row_fully_masked[OF E zone(1,2) l] masked_all_PInf[OF zone(1,2) l] ix self zone
  show ?thesis by simp
qed

text \<open>The only row of the short run: two windows, both inside the zone of row 1.\<close>

theorem fully_masked_row_witness:
  "u_mstump calculate_squared_distance_profile short_args short_QT 2 1 = Inr ([PInf], [(0, - 1, - 1)]) \<and>
   (0::nat) < length [(0::int, - 1::int, - 1::int)] \<and>
   (1::int) = 1 + int 0 \<and>
   profile_at calculate_squared_distance_profile short_args short_QT 1 1 = Inr [Fin 8, Fin 0] \<and>
   int (length [Fin 8, Fin 0]) = k short_args \<and>
   ignore_trivial short_args \<and>
   (0::int) \<le> 1 \<and> 1 \<le> excl_zone short_args \<and> k short_args \<le> 1 + excl_zone short_args + 1 \<and>
   masked (ignore_trivial short_args) (excl_zone short_args) 1 [Fin 8, Fin 0]
     = replicate (length [Fin 8, Fin 0]) PInf \<and>
   [(0::int, - 1::int, - 1::int)] ! 0 = (0, - 1, - 1) \<and> [PInf] ! 0 = PInf \<and>
   1 - excl_zone short_args \<le> 0 \<and> 0 \<le> 1 + excl_zone short_args"
proof -
  have h: "(0::nat) < length [(0::int, - 1::int, - 1::int)]" "(1::int) = 1 + int 0"
    "int (length [Fin 8, Fin 0]) = k short_args" "ignore_trivial short_args"
    "(0::int) \<le> 1" "1 \<le> excl_zone short_args" "k short_args \<le> 1 + excl_zone short_args + 1"
    by (simp_all add: short_args_def)
  from fully_masked_row[OF short_run h(1) h(2) short_profile h(3-7)] short_run short_profile h
  show ?thesis by blast
qed

text \<open>
  Claim C4. In row \<open>i\<close> a column update reads the previous buffer (the odd buffer for
  even \<open>i\<close>, the even buffer for odd \<open>i\<close>) only at index \<open>j-1\<close> and writes only index
  \<open>j\<close> of the live buffer. Hence every valid parallel schedule of the loads and stores
  of the columns \<open>1..k-1\<close>, every sequential order of these columns, and the code's
  descending order leave exactly the buffers (or the index error) of the ascending
  sequential loop; a sequential order is the schedule of a single thread.
\<close>

theorem column_updates_order_independent:
  "(valid_schedule (k a) sch \<longrightarrow> run_parallel a i sch st = col_steps a i [1..k a - 1] st) \<and>
   (distinct js \<and> set js = {1..k a - 1} \<longrightarrow>
      col_steps a i js st = col_steps a i [1..k a - 1] st) \<and>
   col_steps a i (col_order (k a)) st = col_steps a i [1..k a - 1] st \<and>
   run_parallel a i (sequential js) st = col_steps a i js st \<and>
   (nth_py prev (j - 1) = nth_py prev' (j - 1) \<longrightarrow>
      col_value a i prev j = col_value a i prev' j) \<and>
   (col_step a i st j = Inr st' \<and> 0 \<le> j \<longrightarrow>
      prev_buffer i st' = prev_buffer i st \<and>
      length (live_buffer i st') = length (live_buffer i st) \<and>
      (\<forall>t. int t \<noteq> j \<longrightarrow> live_buffer i st' ! t = live_buffer i st ! t))"
proof -
  have 1: "valid_schedule (k a) sch \<longrightarrow> run_parallel a i sch st = col_steps a i [1..k a - 1] st"
    using run_parallel_valid by blast
  have 2: "distinct js \<and> set js = {1..k a - 1} \<longrightarrow>
      col_steps a i js st = col_steps a i [1..k a - 1] st"
  proof
    assume h: "distinct js \<and> set js = {1..k a - 1}"
    then have "set js = set [1..k a - 1]" "\<forall>j\<in>set js. 0 \<le> j" by simp_all
    then show "col_steps a i js st = col_steps a i [1..k a - 1] st" by (rule col_steps_set_cong)
  qed
  have 3: "col_steps a i (col_order (k a)) st = col_steps a i [1..k a - 1] st"
    by (rule col_steps_set_cong) (simp_all add: set_col_order)
  have 4: "run_parallel a i (sequential js) st = col_steps a i js st"
    unfolding run_parallel_def by (rule run_sequential)
  from 1 2 3 4 col_value_reads col_step_writes show ?thesis by blast
qed

text \<open>Row 1 of the run on \<open>[0, 2, 0, 2, 4, 2]\<close>: an interleaved schedule, the order 3, 1, 4, 2.\<close>

theorem column_updates_order_independent_witness:
  "valid_schedule (k ex_args) ex_schedule \<and>
   run_parallel ex_args 1 ex_schedule (ex_QT, ex_QT) = Inr ([4, 4, 0, 4, 8], [4, 0, 4, 8, 4]) \<and>
   col_steps ex_args 1 [1..k ex_args - 1] (ex_QT, ex_QT) = Inr ([4, 4, 0, 4, 8], [4, 0, 4, 8, 4]) \<and>
   distinct [3, 1, 4, 2 :: int] \<and> set [3, 1, 4, 2 :: int] = {1..k ex_args - 1} \<and>
   col_steps ex_args 1 [3, 1, 4, 2] (ex_QT, ex_QT) = Inr ([4, 4, 0, 4, 8], [4, 0, 4, 8, 4]) \<and>
   col_steps ex_args 1 (col_order (k ex_args)) (ex_QT, ex_QT)
     = Inr ([4, 4, 0, 4, 8], [4, 0, 4, 8, 4]) \<and>
   run_parallel ex_args 1 (sequential [3, 1, 4, 2]) (ex_QT, ex_QT)
     = Inr ([4, 4, 0, 4, 8], [4, 0, 4, 8, 4]) \<and>
   nth_py [4, 0, 4, 8, 4 :: real] (2 - 1) = nth_py [9, 0, 9, 9, 9] (2 - 1) \<and>
   col_value ex_args 1 [4, 0, 4, 8, 4] 2 = col_value ex_args 1 [9, 0, 9, 9, 9] 2 \<and>
   col_step ex_args 1 (ex_QT, ex_QT) 2 = Inr ([4, 0, 0, 8, 4], [4, 0, 4, 8, 4]) \<and> (0::int) \<le> 2 \<and>
   prev_buffer 1 ([4, 0, 0, 8, 4], [4, 0, 4, 8, 4]) = prev_buffer 1 (ex_QT, ex_QT) \<and>
   length (live_buffer 1 ([4, 0, 0, 8, 4], [4, 0, 4, 8, 4])) = length (live_buffer 1 (ex_QT, ex_QT)) \<and>
   live_buffer 1 ([4, 0, 0, 8, 4], [4, 0, 4, 8, 4]) ! 3 = live_buffer 1 (ex_QT, ex_QT) ! 3"
proof -
  note T = column_updates_order_independent[of ex_args ex_schedule 1 "(ex_QT, ex_QT)"
      "[3, 1, 4, 2]" "[4, 0, 4, 8, 4]" 2 "[9, 0, 9, 9, 9]" "([4, 0, 0, 8, 4], [4, 0, 4, 8, 4])"]
  have d: "distinct [3, 1, 4, 2 :: int]" "set [3, 1, 4, 2 :: int] = {1..k ex_args - 1}"
    by (auto simp: ex_args_def)
  have r: "nth_py [4, 0, 4, 8, 4 :: real] (2 - 1) = nth_py [9, 0, 9, 9, 9] (2 - 1)"
    by (simp add: nth_py_def py_index_def)
  have z: "(0::int) \<le> 2" by simp
  from T ex_schedule_valid ex_parallel
  have a: "col_steps ex_args 1 [1..k ex_args - 1] (ex_QT, ex_QT) = Inr ([4, 4, 0, 4, 8], [4, 0, 4, 8, 4])"
    by simp
  from T d a have b: "col_steps ex_args 1 [3, 1, 4, 2] (ex_QT, ex_QT) = Inr ([4, 4, 0, 4, 8], [4, 0, 4, 8, 4])"
    by simp
  from T a have c: "col_steps ex_args 1 (col_order (k ex_args)) (ex_QT, ex_QT)
     = Inr ([4, 4, 0, 4, 8], [4, 0, 4, 8, 4])" by simp
  from T b have e: "run_parallel ex_args 1 (sequential [3, 1, 4, 2]) (ex_QT, ex_QT)
     = Inr ([4, 4, 0, 4, 8], [4, 0, 4, 8, 4])" by simp
  from T r have f: "col_value ex_args 1 [4, 0, 4, 8, 4] 2 = col_value ex_args 1 [9, 0, 9, 9, 9] 2"
    by blast
  from T ex_col_step z have g: "prev_buffer 1 ([4, 0, 0, 8, 4], [4, 0, 4, 8, 4]) = prev_buffer 1 (ex_QT, ex_QT) \<and>
   length (live_buffer 1 ([4, 0, 0, 8, 4], [4, 0, 4, 8, 4])) = length (live_buffer 1 (ex_QT, ex_QT)) \<and>
   live_buffer 1 ([4, 0, 0, 8, 4], [4, 0, 4, 8, 4]) ! 3 = live_buffer 1 (ex_QT, ex_QT) ! 3"
    by (simp add: ex_QT_def)
  from ex_schedule_valid ex_parallel a d b c e r f ex_col_step z g show ?thesis by blast
qed

text \<open>
  Claim C9. The engine never mutates its input arrays. On a store, a call of
  \<^verbatim>\<open>_mstump\<close> leaves the heap it was given extended by exactly two new arrays, the
  copies \<open>QT_odd\<close> and \<open>QT_even\<close> of \<open>QT\<close>; every array that existed before the call
  (\<open>T_A\<close>, \<open>T_B\<close>, \<open>M_T\<close>, \<open>Sigma_T\<close>, \<open>mu_Q\<close>, \<open>sigma_Q\<close>, \<open>QT_first\<close> and the
  caller's \<open>QT\<close>, aliased or not) is unchanged, also when the call raises, and the
  result is that of the state-passing model on the argument values.
\<close>

theorem engine_never_mutates_inputs:
  assumes "ptrs_valid p QT h"
  shows "(\<exists>QT_odd QT_even.
            fst (u_mstump_st kern p QT range_stop range_start h) = h @ [QT_odd, QT_even]) \<and>
         (\<forall>a<length h. fst (u_mstump_st kern p QT range_stop range_start h) ! a = h ! a) \<and>
         snd (u_mstump_st kern p QT range_stop range_start h)
           = u_mstump kern (load_args h p) (h ! QT) range_stop range_start"
proof -
  from u_mstump_st_refines[OF assms, of kern range_stop range_start] obtain od ev where
    f: "fst (u_mstump_st kern p QT range_stop range_start h) = h @ [od, ev]"
    and s: "snd (u_mstump_st kern p QT range_stop range_start h)
           = u_mstump kern (load_args h p) (h ! QT) range_stop range_start"
    by blast
  have "\<forall>a<length h. fst (u_mstump_st kern p QT range_stop range_start h) ! a = h ! a"
    unfolding f by (simp add: nth_append)
  with f s show ?thesis by blast
qed

text \<open>The short self-join run with \<open>T_A\<close> and \<open>T_B\<close> aliased.\<close>

theorem engine_never_mutates_inputs_witness:
  "ptrs_valid short_ptrs 5 short_heap \<and>
   u_mstump_st calculate_squared_distance_profile short_ptrs 5 2 1 short_heap =
     (short_heap @ [ [0, 4], [4, 0] ], Inr ([PInf], [(0, - 1, - 1)])) \<and>
   take (length short_heap) (short_heap @ [ [0, 4], [4, 0] ]) = short_heap \<and>
   u_mstump calculate_squared_distance_profile (load_args short_heap short_ptrs)
     (short_heap ! 5) 2 1 = Inr ([PInf], [(0, - 1, - 1)])"
proof -
  from engine_never_mutates_inputs[OF short_ptrs_valid, of calculate_squared_distance_profile 2 1]
  have "snd (u_mstump_st calculate_squared_distance_profile short_ptrs 5 2 1 short_heap)
           = u_mstump calculate_squared_distance_profile (load_args short_heap short_ptrs)
               (short_heap ! 5) 2 1" by blast
  then have "u_mstump calculate_squared_distance_profile (load_args short_heap short_ptrs)
     (short_heap ! 5) 2 1 = Inr ([PInf], [(0, - 1, - 1)])"
    unfolding short_store_run by simp
  with short_ptrs_valid short_store_run show ?thesis by simp
qed

text \<open>
  Claim C7. Calling the entry point with \<open>T_B\<close> omitted sets \<open>T_B := T_A\<close> and forces
  the self-join flag to true whatever flag was supplied: the call is the explicit
  self-join call with \<open>T_B = T_A\<close> and the flag true, for every collaborator and every
  namespace.
\<close>

theorem omitted_T_B_is_self_join:
  "mstump c ns TA mm None ign = mstump c ns TA mm (Some TA) True \<and>
   mstump c ns TA mm None ign =
     rbind (check_dtype c TA) (\<lambda>_. rbind (check_dtype c TA) (\<lambda>_.
       mstump_compute c ns TA mm TA True))"
proof -
  have omitted: "mstump c ns TA mm None ign =
     rbind (check_dtype c TA) (\<lambda>_. rbind (check_dtype c TA) (\<lambda>_.
       mstump_compute c ns TA mm TA True))"
    unfolding mstump_def by simp
  have explicit: "mstump c ns TA mm (Some TA) True =
     rbind (check_dtype c TA) (\<lambda>_. rbind (check_dtype c TA) (\<lambda>_.
       mstump_compute c ns TA mm TA True))"
    unfolding mstump_def by simp
  from omitted explicit show ?thesis by simp
qed

text \<open>
  Claim C3, as amended. When \<^verbatim>\<open>check_dtype\<close> rejects \<open>T_A\<close>, or accepts \<open>T_A\<close> and
  rejects \<open>T_B\<close>, the driver raises that error before anything else is computed: the
  result does not depend on \<open>m\<close> or on any other collaborator, and no rows are
  produced. The driver does not validate \<open>m\<close>.
\<close>

theorem dtype_errors_raised_first:
  "(check_dtype c TA = Inl e \<longrightarrow> mstump c ns TA mm TB ign = Inl e) \<and>
   (check_dtype c TA = Inr () \<and> TB = Some b \<and> check_dtype c b = Inl e \<longrightarrow>
      mstump c ns TA mm TB ign = Inl e)"
proof (intro conjI impI)
  assume "check_dtype c TA = Inl e"
  then show "mstump c ns TA mm TB ign = Inl e"
    unfolding mstump_def by simp
next
  assume "check_dtype c TA = Inr () \<and> TB = Some b \<and> check_dtype c b = Inl e"
  then show "mstump c ns TA mm TB ign = Inl e"
    unfolding mstump_def by simp
qed

text \<open>An object array as \<open>T_A\<close>, and as \<open>T_B\<close> beside a float array.\<close>

theorem dtype_errors_raised_first_witness:
  "check_dtype spec_collab obj_array = Inl InvalidInputError \<and>
   mstump spec_collab (module_namespace spec_collab) obj_array 2 None True = Inl InvalidInputError \<and>
   check_dtype spec_collab ex_array = Inr () \<and>
   check_dtype spec_collab obj_array = Inl InvalidInputError \<and>
   mstump spec_collab (module_namespace spec_collab) ex_array 2 (Some obj_array) False
     = Inl InvalidInputError"
proof -
  have a: "check_dtype spec_collab obj_array = Inl InvalidInputError"
    and b: "check_dtype spec_collab ex_array = Inr ()"
    by (simp_all add: spec_collab_def spec_check_dtype_def obj_array_def ex_array_def)
  from dtype_errors_raised_first[of spec_collab obj_array InvalidInputError
      "module_namespace spec_collab" 2 None True] a
  have 1: "mstump spec_collab (module_namespace spec_collab) obj_array 2 None True
      = Inl InvalidInputError" by simp
  from dtype_errors_raised_first[of spec_collab ex_array InvalidInputError
      "module_namespace spec_collab" 2 "Some obj_array" False obj_array] a b
  have 2: "mstump spec_collab (module_namespace spec_collab) ex_array 2 (Some obj_array) False
     = Inl InvalidInputError" by simp
  from a b 1 2 show ?thesis by simp
qed

text \<open>
  Claim C3 as stated fails for \<open>m\<close>. On the float series \<open>[0, 2, 0, 2, 4, 2]\<close>:
  \<open>m = 1\<close> reaches line 251 (\<^verbatim>\<open>NameError\<close>), and returns six rows once \<^verbatim>\<open>_stump\<close>
  is bound to the engine; \<open>m = 7\<close>, greater than the series length, raises
  \<^verbatim>\<open>ValueError\<close> from the first row's argmin over an empty profile; \<open>m = 6\<close>, the
  series length, returns one row once \<^verbatim>\<open>_stump\<close> is bound. No run raises
  \<^verbatim>\<open>InvalidInputError\<close>.
\<close>

theorem window_length_not_validated_counterexample:
  "(1::int) < 2 \<and>
   mstump spec_collab (module_namespace spec_collab) ex_array 1 None True = Inl NameError \<and>
   mstump spec_collab (intended_namespace spec_collab) ex_array 1 None True =
     Inr [(PInf, 0, - 1, - 1), (PInf, 0, - 1, - 1), (PInf, 0, 0, - 1), (PInf, 0, 0, - 1),
          (PInf, 0, 0, - 1), (PInf, 0, 0, - 1)] \<and>
   int (length (vals ex_array)) < 7 \<and>
   mstump spec_collab (module_namespace spec_collab) ex_array 7 None True = Inl ValueError \<and>
   int (length (vals ex_array)) \<le> 6 \<and>
   mstump spec_collab (intended_namespace spec_collab) ex_array 6 None True
     = Inr [(PInf, 0, - 1, - 1)]"
  by (simp add: one_driver_module one_driver_intended long_driver_module full_driver_intended)
     (simp add: ex_array_def)

text \<open>
  Claim C6 fails on the code: the call of line 251 names \<^verbatim>\<open>_stump\<close>, which the module
  does not bind (the engine is defined as \<^verbatim>\<open>_mstump\<close>), so the entry point raises
  on every input and returns no row set. On the self-join of \<open>[0, 2, 0, 2, 4, 2]\<close> with
  \<open>m = 2\<close> it raises \<^verbatim>\<open>NameError\<close>; with \<^verbatim>\<open>_stump\<close> bound to the engine the same
  call returns the five rows of \<open>ex_driver_intended\<close>.
\<close>

theorem engine_name_unbound:
  "(\<exists>err. mstump c (module_namespace c) TA mm TB ign = Inl err) \<and>
   mstump spec_collab (module_namespace spec_collab) ex_array 2 None True = Inl NameError"
proof -
  have "\<exists>err. mstump c (module_namespace c) TA mm TB ign = Inl err"
    using mstump_module_never_returns[of c TA mm TB ign]
    by (cases "mstump c (module_namespace c) TA mm TB ign") auto
  then show ?thesis using ex_driver_module by simp
qed

text \<open>
  Claim C2 fails on the code for the best index. In the self-join of
  \<open>[1, -1, -1, 1, 1]\<close> with \<open>m = 4\<close> and \<open>zone = ceil(4/4) = 1\<close>, the exclusion zone of
  row 1 covers both reference windows; the engine returns best index 0, inside
  \<open>[i - zone, i + zone] = [0, 2]\<close>, with distance +infinity. The left and right
  indices are guarded (lines 143 and 150), the best index is not; outside this case
  the claim holds (\<open>nth_masked\<close>, \<open>extract_row_outside_zone\<close>).
\<close>

theorem best_index_inside_zone:
  "excl_zone short_args = \<lceil>real_of_int (m short_args) / 4\<rceil> \<and> ignore_trivial short_args \<and>
   u_mstump calculate_squared_distance_profile short_args short_QT 2 1
     = Inr ([PInf], [(0, - 1, - 1)]) \<and>
   1 - excl_zone short_args \<le> (0::int) \<and> (0::int) \<le> 1 + excl_zone short_args"
  using short_run by (simp add: short_args_def)

end
